(* ===== verification/Prelude.thy ===== *)
theory Prelude
  imports Main "HOL-Library.Word"
begin

text \<open>
  What every component of the development shares: the machine types, byte slices and the
  in-place copy of Go, the little-endian readers and writers of \<^verbatim>\<open>encoding/binary\<close>, and
  the lemmas about them. Reads and writes at fixed offsets of a buffer are the only way the
  components touch memory, so the facts on reads after writes collected here carry the
  codec and the shared-memory proofs.
\<close>

unbundle bit_operations_syntax

section \<open>Machine types\<close>

type_synonym byte = "8 word"
type_synonym u16 = "16 word"
type_synonym u32 = "32 word"
type_synonym u64 = "64 word"
type_synonym bytes = "byte list"

named_theorems layout "facts that evaluate reads and writes at fixed offsets of a buffer"

section \<open>Slices and in-place copies\<close>

text \<open>\<open>sub bs off n\<close> is Go's \<^verbatim>\<open>bs[off : off+n]\<close> where that is in range.\<close>

definition sub :: "'a list \<Rightarrow> nat \<Rightarrow> nat \<Rightarrow> 'a list" where
  "sub bs off n = take n (drop off bs)"

text \<open>
  \<open>blit dst off src\<close> is Go's \<^verbatim>\<open>copy(dst[off:], src)\<close>: it overwrites as many elements as
  both sides have and never changes the length of \<open>dst\<close>.
\<close>

definition blit :: "'a list \<Rightarrow> nat \<Rightarrow> 'a list \<Rightarrow> 'a list" where
  "blit dst off src =
     take off dst @ take (length dst - off) src @ drop (off + length src) dst"

lemma length_blit [simp]: "off \<le> length dst \<Longrightarrow> length (blit dst off src) = length dst"
  by (simp add: blit_def)

lemma length_blit_fits [simp]:
  "off + length src \<le> length dst \<Longrightarrow> length (blit dst off src) = length dst"
  by simp

lemma length_sub [simp]: "off + n \<le> length bs \<Longrightarrow> length (sub bs off n) = n"
  by (simp add: sub_def)

lemma length_sub_le: "length (sub bs off n) \<le> n"
  by (simp add: sub_def)

lemma nth_sub [simp]: "i < n \<Longrightarrow> off + i < length bs \<Longrightarrow> sub bs off n ! i = bs ! (off + i)"
  by (simp add: sub_def)

lemma sub_0_0 [simp]: "sub bs off 0 = []"
  by (simp add: sub_def)

lemma sub_whole [simp]: "sub bs 0 (length bs) = bs"
  by (simp add: sub_def)

lemma sub_0 [simp]: "sub bs 0 n = take n bs"
  by (simp add: sub_def)

lemma nth_blit:
  "off + length src \<le> length dst \<Longrightarrow> i < length dst \<Longrightarrow>
   blit dst off src ! i = (if off \<le> i \<and> i < off + length src then src ! (i - off) else dst ! i)"
  by (auto simp: blit_def nth_append min_def)

lemma sub_cong:
  assumes "length xs = length ys"
    and "\<And>i. off \<le> i \<Longrightarrow> i < off + n \<Longrightarrow> i < length xs \<Longrightarrow> xs ! i = ys ! i"
  shows "sub xs off n = sub ys off n"
  using assms by (auto intro!: nth_equalityI simp: sub_def)

lemma sub_blit_same [layout]:
  "off + length src \<le> length dst \<Longrightarrow> n = length src \<Longrightarrow> sub (blit dst off src) off n = src"
  by (simp add: blit_def sub_def)

lemma sub_blit_other [layout]:
  "off + length src \<le> length dst \<Longrightarrow> p + n \<le> off \<or> off + length src \<le> p \<Longrightarrow>
   sub (blit dst off src) p n = sub dst p n"
  by (rule sub_cong) (auto simp: nth_blit)

text \<open>A second write inside the block just written, and writing back what was there.\<close>

lemma blit_blit:
  assumes "off + length (a @ d) \<le> length dst" and "length b \<le> length d"
  shows "blit (blit dst off (a @ d)) (off + length a) b = blit dst off (a @ b @ drop (length b) d)"
  using assms by (intro nth_equalityI) (auto simp: nth_blit nth_append)

lemma blit_sub [simp]: "off + n \<le> length bs \<Longrightarrow> blit bs off (sub bs off n) = bs"
  by (intro nth_equalityI) (auto simp: nth_blit)

lemma sub_blit_inside:
  "off + length src \<le> length dst \<Longrightarrow> off \<le> p \<Longrightarrow> p + n \<le> off + length src \<Longrightarrow>
   sub (blit dst off src) p n = sub src (p - off) n"
  by (intro nth_equalityI) (auto simp: nth_blit)

lemma take_blit_other: "off + length src \<le> length dst \<Longrightarrow> n \<le> off \<Longrightarrow>
   take n (blit dst off src) = take n dst"
  by (simp add: blit_def)

lemma drop_blit_other: "off + length src \<le> length dst \<Longrightarrow> off + length src \<le> n \<Longrightarrow>
   drop n (blit dst off src) = drop n dst"
  by (simp add: blit_def)

lemma sub_sub [simp]: "off' + n' \<le> n \<Longrightarrow> sub (sub bs off n) off' n' = sub bs (off + off') n'"
  by (simp add: sub_def take_drop min_def add.commute)

lemma sub_append_left [simp]: "off + n \<le> length xs \<Longrightarrow> sub (xs @ ys) off n = sub xs off n"
  by (simp add: sub_def)

lemma sub_append_right [simp]: "length xs \<le> off \<Longrightarrow> sub (xs @ ys) off n = sub ys (off - length xs) n"
  by (simp add: sub_def)

lemma sub_drop [simp]: "sub (drop k bs) off n = sub bs (k + off) n"
  by (simp add: sub_def add.commute)

lemma take_add_sub: "take (n + k) bs = take n bs @ sub bs n k"
  by (simp add: sub_def take_add)

lemma sub_split: "sub bs off (n + k) = sub bs off n @ sub bs (off + n) k"
  by (simp add: sub_def take_add add.commute [of n off])

lemma sub_replicate [simp]: "off + n \<le> k \<Longrightarrow> sub (replicate k x) off n = replicate n x"
  by (simp add: sub_def)

text \<open>Two buffers that agree on a prefix and on the field after it agree on both.\<close>

lemma take_extend:
  "take n xs = take n ys \<Longrightarrow> sub xs n k = sub ys n k \<Longrightarrow> m = n + k \<Longrightarrow> take m xs = take m ys"
  by (simp add: take_add_sub)

text \<open>Tables: rows of one width, read row by row.\<close>

lemma length_concat_const: "\<forall>x \<in> set xs. length x = k \<Longrightarrow> length (concat xs) = length xs * k"
  by (induction xs) auto

lemma sub_concat:
  "\<forall>x \<in> set xs. length x = k \<Longrightarrow> i < length xs \<Longrightarrow> sub (concat xs @ ys) (i * k) k = xs ! i"
proof (induction xs arbitrary: i)
  case Nil
  then show ?case by simp
next
  case (Cons x xs)
  show ?case
  proof (cases i)
    case 0
    with Cons.prems show ?thesis by simp
  next
    case (Suc j)
    with Cons show ?thesis by simp
  qed
qed

lemma concat_subs:
  "off + n * k \<le> length bs \<Longrightarrow> concat (map (\<lambda>i. sub bs (off + i * k) k) [0..<n]) = sub bs off (n * k)"
proof (induction n)
  case 0
  then show ?case by simp
next
  case (Suc n)
  have "sub bs off (Suc n * k) = sub bs off (n * k) @ sub bs (off + n * k) k"
    using sub_split [of bs off "n * k" k] by (simp add: add.commute)
  with Suc show ?case by simp
qed

section \<open>Little-endian integers\<close>

fun le_nat :: "bytes \<Rightarrow> nat" where
  "le_nat [] = 0"
| "le_nat (b # bs) = unat b + 256 * le_nat bs"

fun nat_le :: "nat \<Rightarrow> nat \<Rightarrow> bytes" where
  "nat_le 0 x = []"
| "nat_le (Suc n) x = word_of_nat (x mod 256) # nat_le n (x div 256)"

lemma length_nat_le [simp]: "length (nat_le n x) = n"
  by (induction n arbitrary: x) auto

lemma unat_byte_less: "unat (b :: byte) < 256"
  using unsigned_less [of b] by simp

lemma unat_of_nat_byte [simp]: "unat (word_of_nat (x mod 256) :: byte) = x mod 256"
  by (simp add: unat_of_nat)

lemma le_nat_less: "le_nat bs < 256 ^ length bs"
proof (induction bs)
  case Nil
  then show ?case by simp
next
  case (Cons b bs)
  have "unat b + 256 * le_nat bs < 256 * (le_nat bs + 1)"
    using unat_byte_less [of b] by simp
  also have "\<dots> \<le> 256 * 256 ^ length bs"
    using Cons by simp
  finally show ?case by simp
qed

lemma le_nat_nat_le [simp]: "le_nat (nat_le n x) = x mod 256 ^ n"
  by (induction n arbitrary: x) (simp_all add: mod_mult2_eq)

lemma nat_le_le_nat: "n = length bs \<Longrightarrow> nat_le n (le_nat bs) = bs"
proof (induction bs arbitrary: n)
  case Nil
  then show ?case by simp
next
  case (Cons b bs)
  have "(unat b + 256 * le_nat bs) mod 256 = unat b"
    using unat_byte_less [of b] by simp
  moreover have "(unat b + 256 * le_nat bs) div 256 = le_nat bs"
    using unat_byte_less [of b] by simp
  ultimately show ?case
    using Cons by simp
qed

lemma le_nat_inj: "length xs = length ys \<Longrightarrow> le_nat xs = le_nat ys \<Longrightarrow> xs = ys"
  by (metis nat_le_le_nat)

text \<open>
  The readers and writers of \<^verbatim>\<open>binary.LittleEndian\<close>. Every use in the sources is at a fixed
  offset below a length that was checked before, so the value of a read past the end of the
  buffer, where Go panics, plays no part.
\<close>

definition get_u16 :: "bytes \<Rightarrow> nat \<Rightarrow> u16" where
  "get_u16 bs off = word_of_nat (le_nat (sub bs off 2))"

definition get_u32 :: "bytes \<Rightarrow> nat \<Rightarrow> u32" where
  "get_u32 bs off = word_of_nat (le_nat (sub bs off 4))"

definition get_u64 :: "bytes \<Rightarrow> nat \<Rightarrow> u64" where
  "get_u64 bs off = word_of_nat (le_nat (sub bs off 8))"

definition put_u16 :: "nat \<Rightarrow> u16 \<Rightarrow> bytes \<Rightarrow> bytes" where
  "put_u16 off w bs = blit bs off (nat_le 2 (unat w))"

definition put_u32 :: "nat \<Rightarrow> u32 \<Rightarrow> bytes \<Rightarrow> bytes" where
  "put_u32 off w bs = blit bs off (nat_le 4 (unat w))"

definition put_u64 :: "nat \<Rightarrow> u64 \<Rightarrow> bytes \<Rightarrow> bytes" where
  "put_u64 off w bs = blit bs off (nat_le 8 (unat w))"

lemma length_put [simp]:
  "off \<le> length bs \<Longrightarrow> length (put_u16 off a bs) = length bs"
  "off \<le> length bs \<Longrightarrow> length (put_u32 off b bs) = length bs"
  "off \<le> length bs \<Longrightarrow> length (put_u64 off c bs) = length bs"
  by (simp_all add: put_u16_def put_u32_def put_u64_def)

lemma sub_put_other [layout]:
  "off + 2 \<le> length bs \<Longrightarrow> p + n \<le> off \<or> off + 2 \<le> p \<Longrightarrow> sub (put_u16 off a bs) p n = sub bs p n"
  "off + 4 \<le> length bs \<Longrightarrow> p + n \<le> off \<or> off + 4 \<le> p \<Longrightarrow> sub (put_u32 off b bs) p n = sub bs p n"
  "off + 8 \<le> length bs \<Longrightarrow> p + n \<le> off \<or> off + 8 \<le> p \<Longrightarrow> sub (put_u64 off c bs) p n = sub bs p n"
  by (simp_all add: put_u16_def put_u32_def put_u64_def sub_blit_other)

lemma unat_u16_less: "unat (w :: u16) < 65536"
  using unsigned_less [of w] by simp

lemma unat_u32_less: "unat (w :: u32) < 4294967296"
  using unsigned_less [of w] by simp

lemma unat_u64_less: "unat (w :: u64) < 18446744073709551616"
  using unsigned_less [of w] by simp

lemma word_of_nat_mod_exp [simp]:
  "word_of_nat (unat w mod 65536) = (w :: u16)"
  "word_of_nat (unat w' mod 4294967296) = (w' :: u32)"
  "word_of_nat (unat w'' mod 18446744073709551616) = (w'' :: u64)"
  using unat_u16_less [of w] unat_u32_less [of w'] unat_u64_less [of w''] by simp_all

lemma get_put_same [layout]:
  "off + 2 \<le> length bs \<Longrightarrow> get_u16 (put_u16 off a bs) off = a"
  "off + 4 \<le> length bs \<Longrightarrow> get_u32 (put_u32 off b bs) off = b"
  "off + 8 \<le> length bs \<Longrightarrow> get_u64 (put_u64 off c bs) off = c"
  by (simp_all add: get_u16_def put_u16_def get_u32_def put_u32_def get_u64_def put_u64_def
      sub_blit_same word_of_nat_mod_exp)

lemma get_put_other [layout]:
  "off + 2 \<le> length bs \<Longrightarrow> p + 2 \<le> off \<or> off + 2 \<le> p \<Longrightarrow> get_u16 (put_u16 off a bs) p = get_u16 bs p"
  "off + 4 \<le> length bs \<Longrightarrow> p + 2 \<le> off \<or> off + 4 \<le> p \<Longrightarrow> get_u16 (put_u32 off b bs) p = get_u16 bs p"
  "off + 8 \<le> length bs \<Longrightarrow> p + 2 \<le> off \<or> off + 8 \<le> p \<Longrightarrow> get_u16 (put_u64 off c bs) p = get_u16 bs p"
  "off + 2 \<le> length bs \<Longrightarrow> p + 4 \<le> off \<or> off + 2 \<le> p \<Longrightarrow> get_u32 (put_u16 off a bs) p = get_u32 bs p"
  "off + 4 \<le> length bs \<Longrightarrow> p + 4 \<le> off \<or> off + 4 \<le> p \<Longrightarrow> get_u32 (put_u32 off b bs) p = get_u32 bs p"
  "off + 8 \<le> length bs \<Longrightarrow> p + 4 \<le> off \<or> off + 8 \<le> p \<Longrightarrow> get_u32 (put_u64 off c bs) p = get_u32 bs p"
  "off + 2 \<le> length bs \<Longrightarrow> p + 8 \<le> off \<or> off + 2 \<le> p \<Longrightarrow> get_u64 (put_u16 off a bs) p = get_u64 bs p"
  "off + 4 \<le> length bs \<Longrightarrow> p + 8 \<le> off \<or> off + 4 \<le> p \<Longrightarrow> get_u64 (put_u32 off b bs) p = get_u64 bs p"
  "off + 8 \<le> length bs \<Longrightarrow> p + 8 \<le> off \<or> off + 8 \<le> p \<Longrightarrow> get_u64 (put_u64 off c bs) p = get_u64 bs p"
  by (simp_all add: get_u16_def get_u32_def get_u64_def sub_put_other)

lemma get_blit_other [layout]:
  "off + length src \<le> length bs \<Longrightarrow> p + 2 \<le> off \<or> off + length src \<le> p \<Longrightarrow>
   get_u16 (blit bs off src) p = get_u16 bs p"
  "off + length src \<le> length bs \<Longrightarrow> p + 4 \<le> off \<or> off + length src \<le> p \<Longrightarrow>
   get_u32 (blit bs off src) p = get_u32 bs p"
  "off + length src \<le> length bs \<Longrightarrow> p + 8 \<le> off \<or> off + length src \<le> p \<Longrightarrow>
   get_u64 (blit bs off src) p = get_u64 bs p"
  by (simp_all add: get_u16_def get_u32_def get_u64_def sub_blit_other)

lemma get_append_left [layout]:
  "off + 2 \<le> length xs \<Longrightarrow> get_u16 (xs @ ys) off = get_u16 xs off"
  "off + 4 \<le> length xs \<Longrightarrow> get_u32 (xs @ ys) off = get_u32 xs off"
  "off + 8 \<le> length xs \<Longrightarrow> get_u64 (xs @ ys) off = get_u64 xs off"
  by (simp_all add: get_u16_def get_u32_def get_u64_def)

lemma get_sub [simp]:
  "off + 2 \<le> n \<Longrightarrow> get_u16 (sub bs p n) off = get_u16 bs (p + off)"
  "off + 4 \<le> n \<Longrightarrow> get_u32 (sub bs p n) off = get_u32 bs (p + off)"
  "off + 8 \<le> n \<Longrightarrow> get_u64 (sub bs p n) off = get_u64 bs (p + off)"
  by (simp_all add: get_u16_def get_u32_def get_u64_def)

lemma get_take [simp]:
  "off + 2 \<le> n \<Longrightarrow> get_u16 (take n bs) off = get_u16 bs off"
  "off + 4 \<le> n \<Longrightarrow> get_u32 (take n bs) off = get_u32 bs off"
  "off + 8 \<le> n \<Longrightarrow> get_u64 (take n bs) off = get_u64 bs off"
  using get_sub [of off n bs 0] by simp_all

text \<open>A field is determined by its value: equal reads mean equal bytes.\<close>

lemma word_of_nat_inj_below:
  "word_of_nat a = (word_of_nat b :: 'a::len word) \<Longrightarrow> a < 2 ^ LENGTH('a) \<Longrightarrow> b < 2 ^ LENGTH('a) \<Longrightarrow> a = b"
  by (simp add: word_of_nat_eq_iff take_bit_eq_mod)

lemma get_eq_sub_eq:
  "off + 2 \<le> length xs \<Longrightarrow> off + 2 \<le> length ys \<Longrightarrow> get_u16 xs off = get_u16 ys off \<Longrightarrow> sub xs off 2 = sub ys off 2"
  "off + 4 \<le> length xs \<Longrightarrow> off + 4 \<le> length ys \<Longrightarrow> get_u32 xs off = get_u32 ys off \<Longrightarrow> sub xs off 4 = sub ys off 4"
  "off + 8 \<le> length xs \<Longrightarrow> off + 8 \<le> length ys \<Longrightarrow> get_u64 xs off = get_u64 ys off \<Longrightarrow> sub xs off 8 = sub ys off 8"
  using le_nat_less [of "sub xs off 2"] le_nat_less [of "sub ys off 2"]
    le_nat_less [of "sub xs off 4"] le_nat_less [of "sub ys off 4"]
    le_nat_less [of "sub xs off 8"] le_nat_less [of "sub ys off 8"]
  by (auto simp: get_u16_def get_u32_def get_u64_def intro!: le_nat_inj
      dest!: word_of_nat_inj_below)

lemma unat_ucast_u32_u64 [simp]: "unat (ucast (w :: u32) :: u64) = unat w"
  using unat_u32_less [of w] by (simp add: unsigned_ucast_eq take_bit_nat_eq_self)

lemma unat_ucast_u16_u32 [simp]: "unat (ucast (w :: u16) :: u32) = unat w"
  using unat_u16_less [of w] by (simp add: unsigned_ucast_eq take_bit_nat_eq_self)

text \<open>The bytes of a field: what a writer stores and a reader reads back.\<close>

definition le16 :: "u16 \<Rightarrow> bytes" where "le16 w = nat_le 2 (unat w)"
definition le32 :: "u32 \<Rightarrow> bytes" where "le32 w = nat_le 4 (unat w)"
definition le64 :: "u64 \<Rightarrow> bytes" where "le64 w = nat_le 8 (unat w)"

lemma length_le [simp]: "length (le16 a) = 2" "length (le32 b) = 4" "length (le64 c) = 8"
  by (simp_all add: le16_def le32_def le64_def)

lemma put_eq_blit:
  "put_u16 off a bs = blit bs off (le16 a)"
  "put_u32 off b bs = blit bs off (le32 b)"
  "put_u64 off c bs = blit bs off (le64 c)"
  by (simp_all add: put_u16_def put_u32_def put_u64_def le16_def le32_def le64_def)

lemma sub_put_same [layout]:
  "off + 2 \<le> length bs \<Longrightarrow> sub (put_u16 off a bs) off 2 = le16 a"
  "off + 4 \<le> length bs \<Longrightarrow> sub (put_u32 off b bs) off 4 = le32 b"
  "off + 8 \<le> length bs \<Longrightarrow> sub (put_u64 off c bs) off 8 = le64 c"
  by (simp_all add: put_eq_blit sub_blit_same)

lemma le_get:
  "off + 2 \<le> length bs \<Longrightarrow> le16 (get_u16 bs off) = sub bs off 2"
  "off + 4 \<le> length bs \<Longrightarrow> le32 (get_u32 bs off) = sub bs off 4"
  "off + 8 \<le> length bs \<Longrightarrow> le64 (get_u64 bs off) = sub bs off 8"
  using le_nat_less [of "sub bs off 2"] le_nat_less [of "sub bs off 4"] le_nat_less [of "sub bs off 8"]
  by (simp_all add: le16_def le32_def le64_def get_u16_def get_u32_def get_u64_def unat_of_nat
      nat_le_le_nat)

lemma get_of_sub:
  "sub bs off 2 = le16 a \<Longrightarrow> get_u16 bs off = a"
  "sub bs off 4 = le32 b \<Longrightarrow> get_u32 bs off = b"
  "sub bs off 8 = le64 c \<Longrightarrow> get_u64 bs off = c"
  by (simp_all add: le16_def le32_def le64_def get_u16_def get_u32_def get_u64_def)

text \<open>Reading a field out of a concatenation of fields: skip what precedes it.\<close>

lemma get_skip [layout]:
  "length xs \<le> off \<Longrightarrow> get_u16 (xs @ ys) off = get_u16 ys (off - length xs)"
  "length xs \<le> off \<Longrightarrow> get_u32 (xs @ ys) off = get_u32 ys (off - length xs)"
  "length xs \<le> off \<Longrightarrow> get_u64 (xs @ ys) off = get_u64 ys (off - length xs)"
  by (simp_all add: get_u16_def get_u32_def get_u64_def)

lemma get_le_head [layout]:
  "get_u16 (le16 a @ ys) 0 = a" "get_u32 (le32 b @ ys) 0 = b" "get_u64 (le64 c @ ys) 0 = c"
  by (rule get_of_sub; simp)+

lemma get_le_single [layout]:
  "get_u16 (le16 a) 0 = a" "get_u32 (le32 b) 0 = b" "get_u64 (le64 c) 0 = c"
  using get_le_head [where ys = "[]"] by simp_all

text \<open>Writing fields one after another turns a buffer into their concatenation.\<close>

lemma blit_skip: "length xs \<le> off \<Longrightarrow> blit (xs @ ys) off src = xs @ blit ys (off - length xs) src"
  by (elim less_eqE) (simp add: blit_def add.commute [of "length xs"])

lemma put_skip:
  "length xs \<le> off \<Longrightarrow> put_u16 off a (xs @ ys) = xs @ put_u16 (off - length xs) a ys"
  "length xs \<le> off \<Longrightarrow> put_u32 off b (xs @ ys) = xs @ put_u32 (off - length xs) b ys"
  "length xs \<le> off \<Longrightarrow> put_u64 off c (xs @ ys) = xs @ put_u64 (off - length xs) c ys"
  by (simp_all add: put_eq_blit blit_skip)

lemma put_head:
  "2 \<le> length ys \<Longrightarrow> put_u16 0 a ys = le16 a @ drop 2 ys"
  "4 \<le> length ys \<Longrightarrow> put_u32 0 b ys = le32 b @ drop 4 ys"
  "8 \<le> length ys \<Longrightarrow> put_u64 0 c ys = le64 c @ drop 8 ys"
  by (simp_all add: put_eq_blit blit_def numeral_2_eq_2)

text \<open>Clearing a prefix, as \<^verbatim>\<open>clear(out[:n])\<close> and the zeroing loops do.\<close>

definition clear_prefix :: "nat \<Rightarrow> bytes \<Rightarrow> bytes" where
  "clear_prefix n bs = blit bs 0 (replicate n 0)"

lemma length_clear_prefix [simp]: "length (clear_prefix n bs) = length bs"
  by (simp add: clear_prefix_def)

lemma drop_clear_prefix [simp]: "n \<le> length bs \<Longrightarrow> drop n (clear_prefix n bs) = drop n bs"
  by (simp add: clear_prefix_def blit_def)

lemma sub_clear_prefix [layout]:
  "n \<le> length bs \<Longrightarrow> off + k \<le> n \<Longrightarrow> sub (clear_prefix n bs) off k = replicate k 0"
  by (simp add: clear_prefix_def blit_def)

section \<open>Changes confined to a range\<close>

text \<open>
  Components that share a buffer write to disjoint ranges of it. \<open>agree_outside lo hi xs ys\<close>
  says that two states of a buffer differ at most between \<open>lo\<close> and \<open>hi\<close>.
\<close>

definition agree_outside :: "nat \<Rightarrow> nat \<Rightarrow> bytes \<Rightarrow> bytes \<Rightarrow> bool" where
  "agree_outside lo hi xs ys \<longleftrightarrow>
     length xs = length ys \<and> (\<forall>i < length xs. i < lo \<or> hi \<le> i \<longrightarrow> xs ! i = ys ! i)"

lemma agree_outside_refl [simp]: "agree_outside lo hi xs xs"
  by (simp add: agree_outside_def)

lemma agree_outside_length: "agree_outside lo hi xs ys \<Longrightarrow> length xs = length ys"
  by (simp add: agree_outside_def)

lemma agree_outside_trans:
  "agree_outside lo hi xs ys \<Longrightarrow> agree_outside lo hi ys zs \<Longrightarrow> agree_outside lo hi xs zs"
  by (simp add: agree_outside_def)

lemma agree_outside_sym: "agree_outside lo hi xs ys \<Longrightarrow> agree_outside lo hi ys xs"
  by (auto simp: agree_outside_def)

lemma agree_outside_mono:
  "agree_outside lo hi xs ys \<Longrightarrow> lo' \<le> lo \<Longrightarrow> hi \<le> hi' \<Longrightarrow> agree_outside lo' hi' xs ys"
  by (auto simp: agree_outside_def)

lemma agree_outside_sub:
  "agree_outside lo hi xs ys \<Longrightarrow> p + n \<le> lo \<or> hi \<le> p \<Longrightarrow> sub xs p n = sub ys p n"
  by (rule sub_cong) (auto simp: agree_outside_def)

lemma agree_outside_get:
  assumes "agree_outside lo hi xs ys"
  shows "p + 2 \<le> lo \<or> hi \<le> p \<Longrightarrow> get_u16 xs p = get_u16 ys p"
    and "p + 4 \<le> lo \<or> hi \<le> p \<Longrightarrow> get_u32 xs p = get_u32 ys p"
    and "p + 8 \<le> lo \<or> hi \<le> p \<Longrightarrow> get_u64 xs p = get_u64 ys p"
  by (simp_all add: get_u16_def get_u32_def get_u64_def agree_outside_sub [OF assms])

lemma agree_outside_blit:
  "off + length src \<le> length dst \<Longrightarrow> lo \<le> off \<Longrightarrow> off + length src \<le> hi \<Longrightarrow>
   agree_outside lo hi dst (blit dst off src)"
  by (auto simp: agree_outside_def nth_blit)

lemma agree_outside_put_u64:
  "off + 8 \<le> length dst \<Longrightarrow> lo \<le> off \<Longrightarrow> off + 8 \<le> hi \<Longrightarrow> agree_outside lo hi dst (put_u64 off w dst)"
  by (simp add: put_eq_blit agree_outside_blit)

section \<open>Powers of two\<close>

text \<open>
  The sources test for a power of two with \<^verbatim>\<open>v != 0 && v&(v-1) == 0\<close>, for a flag set and
  for a ring capacity. The test is exact at every width.
\<close>

lemma nat_and_pred_0_iff: "0 < n \<Longrightarrow> n AND (n - 1) = 0 \<longleftrightarrow> (\<exists>k. n = (2::nat) ^ k)"
proof (induction n rule: less_induct)
  case (less n)
  show ?case
  proof (cases "even n")
    case True
    then obtain m where m: "n = 2 * m" by (elim evenE)
    with less.prems have pos: "0 < m" "m < n" by simp_all
    then have pred: "2 * m - 1 = 2 * (m - 1) + 1" by simp
    have "n AND (n - 1) = 2 * (m AND (m - 1))"
      unfolding m pred by (subst and_rec) simp
    then have "n AND (n - 1) = 0 \<longleftrightarrow> (\<exists>k. m = 2 ^ k)"
      using less.IH [OF pos(2) pos(1)] by simp
    also have "\<dots> \<longleftrightarrow> (\<exists>k. n = 2 ^ k)"
    proof
      assume "\<exists>k. n = 2 ^ k"
      then obtain k where k: "n = 2 ^ k" by blast
      with True less.prems have "k \<noteq> 0" by (intro notI) simp
      with k m show "\<exists>k. m = 2 ^ k" by (cases k) auto
    qed (use m in \<open>auto intro: exI [of _ "Suc _"]\<close>)
    finally show ?thesis .
  next
    case False
    then obtain m where m: "n = 2 * m + 1" by (elim oddE)
    have "n AND (n - 1) = 2 * m"
      unfolding m by (subst and_rec) simp
    moreover have "(\<exists>k. n = 2 ^ k) \<longleftrightarrow> m = 0"
    proof
      assume "\<exists>k. n = 2 ^ k"
      then obtain k where "n = 2 ^ k" by blast
      with False have "k = 0" by (cases k) auto
      with \<open>n = 2 ^ k\<close> m show "m = 0" by simp
    qed (use m in \<open>auto intro: exI [of _ 0]\<close>)
    ultimately show ?thesis by simp
  qed
qed

lemma unat_exp_eq: "k < LENGTH('a) \<Longrightarrow> unat ((2 :: 'a::len word) ^ k) = 2 ^ k"
  using unat_of_nat [of "2 ^ k", where ?'a = 'a] by (simp add: power_strict_increasing)

lemma word_pow2_iff:
  fixes v :: "'a::len word"
  shows "v \<noteq> 0 \<and> v AND (v - 1) = 0 \<longleftrightarrow> (\<exists>k < LENGTH('a). v = 2 ^ k)"
proof (cases "v = 0")
  case True
  then show ?thesis by (auto simp: exp_eq_0_imp_not_bit)
next
  case False
  then have pos: "0 < unat v" by (simp add: unat_gt_0)
  from False have "unat (v - 1) = unat v - 1" by (simp add: unat_minus_one)
  then have "v AND (v - 1) = 0 \<longleftrightarrow> unat v AND (unat v - 1) = 0"
    by (metis unsigned_and_eq unat_eq_zero)
  also have "\<dots> \<longleftrightarrow> (\<exists>k. unat v = 2 ^ k)"
    by (rule nat_and_pred_0_iff [OF pos])
  also have "\<dots> \<longleftrightarrow> (\<exists>k < LENGTH('a). v = 2 ^ k)"
  proof
    assume "\<exists>k. unat v = 2 ^ k"
    then obtain k where k: "unat v = 2 ^ k" by blast
    moreover have "k < LENGTH('a)"
      using unsigned_less [of v, where ?'a = nat] by (simp add: k)
    moreover have "v = 2 ^ k"
      using k by (metis of_nat_unat ucast_id of_nat_power of_nat_numeral)
    ultimately show "\<exists>k < LENGTH('a). v = 2 ^ k" by blast
  qed (auto simp: unat_exp_eq)
  finally show ?thesis using False by simp
qed

section \<open>Results\<close>

text \<open>
  The errors of the bus package: its package-level \<^verbatim>\<open>errors.New\<close> values, a system call's
  errno, the error of an ended context, and the three ways the sources build an error from
  others: \<^verbatim>\<open>errors.Join\<close>, \<^verbatim>\<open>fmt.Errorf\<close> with one \<^verbatim>\<open>%w\<close>, and the status error type of the
  module caller. A call that may fail returns \<open>err + 'a\<close>.
\<close>

datatype err =
    ErrModuleMessage | ErrRingLayout | ErrRegion
  | ErrDenied | ErrProtocol | ErrEpoch | ErrWouldBlock | ErrPayload
  | ErrModuleConfig | ErrModuleRuntime
  | ErrModuleCallDeadline | ErrModuleCallCancelled | ErrModuleCallFailed
  | ErrModuleCallCapabilityAbsent | ErrModuleCallRejected
  | ModuleCallStatusError u16
  | CtxErr
  | Errno nat
  | Join err err
  | AttachFailed string err

text \<open>\<open>errors.Is\<close>: an error is itself, and whatever it unwraps to.\<close>

fun errors_is :: "err \<Rightarrow> err \<Rightarrow> bool" where
  "errors_is (Join a b) t \<longleftrightarrow> Join a b = t \<or> errors_is a t \<or> errors_is b t"
| "errors_is (AttachFailed m e) t \<longleftrightarrow> AttachFailed m e = t \<or> t = ErrModuleRuntime"
| "errors_is (ModuleCallStatusError s) t \<longleftrightarrow> ModuleCallStatusError s = t \<or> t = ErrModuleCallFailed"
| "errors_is e t \<longleftrightarrow> e = t"

definition bind_sum :: "'e + 'a \<Rightarrow> ('a \<Rightarrow> 'e + 'b) \<Rightarrow> 'e + 'b" where
  "bind_sum r k = (case r of Inl e \<Rightarrow> Inl e | Inr a \<Rightarrow> k a)"

lemma bind_sum_simps [simp]:
  "bind_sum (Inl e) k = Inl e"
  "bind_sum (Inr a) k = k a"
  by (simp_all add: bind_sum_def)

lemma bind_sum_Inr_iff: "bind_sum r k = Inr b \<longleftrightarrow> (\<exists>a. r = Inr a \<and> k a = Inr b)"
  by (cases r) auto

text \<open>
  A step of the program that may end the process: an out-of-range slice panics, and an access
  to a mapping that is gone faults. Both are \<open>Crash\<close>.
\<close>

datatype 'a outcome = Crash | Ret 'a

definition obind :: "'a outcome \<Rightarrow> ('a \<Rightarrow> 'b outcome) \<Rightarrow> 'b outcome" where
  "obind r k = (case r of Crash \<Rightarrow> Crash | Ret a \<Rightarrow> k a)"

lemma obind_simps [simp]:
  "obind Crash k = Crash"
  "obind (Ret a) k = k a"
  by (simp_all add: obind_def)

lemma obind_Ret_iff: "obind r k = Ret b \<longleftrightarrow> (\<exists>a. r = Ret a \<and> k a = Ret b)"
  by (cases r) auto

text \<open>A string literal of the sources as bytes.\<close>

definition ascii :: "string \<Rightarrow> bytes" where
  "ascii s = map of_char s"

end
