(* ===== verification/Interfaces.thy ===== *)
theory Interfaces
  imports Prelude
begin

text \<open>
  The contracts between components, as locales: a fixed-width wire codec (what a peer may
  rely on when it decodes what another one encoded) and a bounded first-in first-out queue
  (what the client relies on from the shared-memory ring). The clients' lemmas are proved
  here once; the theories of the providers interpret the locales on the model's own
  definitions.
\<close>

section \<open>Fixed-width wire codecs\<close>

text \<open>
  \<open>fits x n\<close> says that a header decoding to \<open>x\<close> may be followed by \<open>n\<close> bytes: a module
  message, for one, announces a body that must be present. The laws say that decoding
  inverts encoding whatever follows, that only valid values are decoded, and that the
  encoding of what was decoded is the very prefix that was read.
\<close>

locale fixed_codec =
  fixes width :: nat
    and valid :: "'a \<Rightarrow> bool"
    and fits :: "'a \<Rightarrow> nat \<Rightarrow> bool"
    and enc :: "'a \<Rightarrow> bytes"
    and dec :: "bytes \<Rightarrow> 'a option"
  assumes enc_width: "valid x \<Longrightarrow> length (enc x) = width"
    and dec_enc: "valid x \<Longrightarrow> fits x (length rest) \<Longrightarrow> dec (enc x @ rest) = Some x"
    and dec_long: "dec bs = Some x \<Longrightarrow> width \<le> length bs"
    and dec_valid: "dec bs = Some x \<Longrightarrow> valid x"
    and dec_fits: "dec bs = Some x \<Longrightarrow> fits x (length bs - width)"
    and enc_dec: "dec bs = Some x \<Longrightarrow> enc x = take width bs"
begin

lemma dec_iff: "dec bs = Some x \<longleftrightarrow> valid x \<and> (\<exists>rest. bs = enc x @ rest \<and> fits x (length rest))"
proof
  assume dec: "dec bs = Some x"
  then have "bs = enc x @ drop width bs"
    by (simp add: enc_dec)
  with dec show "valid x \<and> (\<exists>rest. bs = enc x @ rest \<and> fits x (length rest))"
    by (metis dec_fits dec_valid length_drop)
qed (auto simp: dec_enc)

lemma enc_inj: "valid x \<Longrightarrow> valid y \<Longrightarrow> fits x n \<Longrightarrow> fits y n \<Longrightarrow> enc x = enc y \<Longrightarrow> x = y"
  by (metis dec_enc length_replicate option.inject)

lemma dec_unique_prefix:
  "dec bs = Some x \<Longrightarrow> dec cs = Some x \<Longrightarrow> take width bs = take width cs"
  by (metis enc_dec)

lemma dec_rejects_short: "length bs < width \<Longrightarrow> dec bs = None"
  using dec_long [of bs] by (cases "dec bs") auto

text \<open>A header changed anywhere never decodes to the same value.\<close>

lemma dec_tamper_evident:
  "dec bs = Some x \<Longrightarrow> take width cs \<noteq> take width bs \<Longrightarrow> dec cs \<noteq> Some x"
  by (metis enc_dec)

end

section \<open>Bounded first-in first-out queues\<close>

text \<open>
  \<open>items\<close> is the abstract content, oldest first. A push that finds the queue full returns
  None and has no state to return; \<open>pop\<close> on a queue whose \<open>peek\<close> is None is not asked for.
\<close>

locale bounded_fifo =
  fixes inv :: "'s \<Rightarrow> bool"
    and items :: "'s \<Rightarrow> 'a list"
    and bound :: "'s \<Rightarrow> nat"
    and ok :: "'s \<Rightarrow> 'a \<Rightarrow> bool"
    and push :: "'a \<Rightarrow> 's \<Rightarrow> 's option"
    and peek :: "'s \<Rightarrow> 'a option"
    and pop :: "'s \<Rightarrow> 's"
  assumes items_bound: "inv s \<Longrightarrow> length (items s) \<le> bound s"
    and push_full: "inv s \<Longrightarrow> push x s = None \<longleftrightarrow> length (items s) = bound s"
    and push_inv: "inv s \<Longrightarrow> ok s x \<Longrightarrow> push x s = Some s' \<Longrightarrow> inv s'"
    and push_items: "inv s \<Longrightarrow> ok s x \<Longrightarrow> push x s = Some s' \<Longrightarrow> items s' = items s @ [x]"
    and push_frame: "inv s \<Longrightarrow> ok s x \<Longrightarrow> push x s = Some s' \<Longrightarrow> bound s' = bound s \<and> ok s' = ok s"
    and peek_items: "inv s \<Longrightarrow> peek s = (case items s of [] \<Rightarrow> None | x # _ \<Rightarrow> Some x)"
    and pop_inv: "inv s \<Longrightarrow> items s \<noteq> [] \<Longrightarrow> inv (pop s)"
    and pop_items: "inv s \<Longrightarrow> items s \<noteq> [] \<Longrightarrow> items (pop s) = tl (items s)"
    and pop_frame: "inv s \<Longrightarrow> items s \<noteq> [] \<Longrightarrow> bound (pop s) = bound s \<and> ok (pop s) = ok s"
begin

fun push_all :: "'a list \<Rightarrow> 's \<Rightarrow> 's option" where
  "push_all [] s = Some s"
| "push_all (x # xs) s = Option.bind (push x s) (push_all xs)"

fun drain :: "nat \<Rightarrow> 's \<Rightarrow> 'a list \<times> 's" where
  "drain 0 s = ([], s)"
| "drain (Suc n) s =
     (case peek s of None \<Rightarrow> ([], s)
      | Some x \<Rightarrow> (let (xs, s') = drain n (pop s) in (x # xs, s')))"

text \<open>The queue never loses, duplicates or reorders what was pushed.\<close>

lemma push_all_items:
  "inv s \<Longrightarrow> \<forall>x \<in> set xs. ok s x \<Longrightarrow> push_all xs s = Some s' \<Longrightarrow>
   inv s' \<and> items s' = items s @ xs \<and> bound s' = bound s"
proof (induction xs arbitrary: s)
  case Nil
  then show ?case by simp
next
  case (Cons x xs)
  from Cons.prems(3) obtain t where t: "push x s = Some t" "push_all xs t = Some s'"
    by (auto simp: bind_eq_Some_conv)
  with Cons.prems have "inv t" "items t = items s @ [x]" "bound t = bound s" "ok t = ok s"
    by (auto simp: push_inv push_items dest: push_frame)
  with Cons.IH [of t] Cons.prems t show ?case by simp
qed

lemma push_all_fits:
  "inv s \<Longrightarrow> \<forall>x \<in> set xs. ok s x \<Longrightarrow> length (items s) + length xs \<le> bound s \<Longrightarrow>
   \<exists>s'. push_all xs s = Some s'"
proof (induction xs arbitrary: s)
  case Nil
  then show ?case by simp
next
  case (Cons x xs)
  then obtain t where t: "push x s = Some t"
    using push_full [of s x] by fastforce
  with Cons.prems have "inv t" "items t = items s @ [x]" "bound t = bound s" "ok t = ok s"
    by (auto simp: push_inv push_items dest: push_frame)
  with Cons.IH [of t] Cons.prems t show ?case by simp
qed

lemma drain_items:
  "inv s \<Longrightarrow> drain n s = (xs, s') \<Longrightarrow> xs = take n (items s) \<and> items s' = drop n (items s) \<and> inv s'"
proof (induction n arbitrary: s xs s')
  case 0
  then show ?case by simp
next
  case (Suc n)
  show ?case
  proof (cases "items s")
    case Nil
    with Suc.prems show ?thesis by (simp add: peek_items)
  next
    case (Cons y ys)
    then have nonempty: "items s \<noteq> []" by simp
    obtain zs t where zs: "drain n (pop s) = (zs, t)" by (cases "drain n (pop s)")
    with Suc.prems Cons have "xs = y # zs" "s' = t" by (simp_all add: peek_items)
    with Suc.IH [OF pop_inv [OF Suc.prems(1) nonempty] zs] Cons show ?thesis
      by (simp add: pop_items [OF Suc.prems(1) nonempty])
  qed
qed

lemma fifo_roundtrip:
  assumes "inv s" and "items s = []" and "\<forall>x \<in> set xs. ok s x" and "push_all xs s = Some t"
  shows "fst (drain (length xs) t) = xs"
proof -
  have "inv t" "items t = xs"
    using push_all_items [OF assms(1,3,4)] assms(2) by simp_all
  then show ?thesis
    using drain_items [of t "length xs"] by (cases "drain (length xs) t") simp
qed

end

end
