(* ===== verification/Wire.thy ===== *)
theory Wire
  imports Interfaces
begin

text \<open>
  The frame codec of the event bus, \<^verbatim>\<open>server-go/bus/wire.go\<close>: the 64-byte frame header,
  its validation, encoder and decoder, and the bounds check of a decoded payload reference.
  Proved here: the bit-level validation accepts exactly the frames of an abstract
  description of the wire (one pattern, at most one placement, the rules that tie flags to
  fields); encoding and decoding are inverse in both directions; a placement check that
  passes means the payload lies in its slot, with no wrap-around.
\<close>

section \<open>Constants and data\<close>

definition WireMagic :: u32 where [simp]: "WireMagic = 0x30535542"
definition WireVersion :: u16 where [simp]: "WireVersion = 3"
definition HdrLen :: nat where [simp]: "HdrLen = 64"
definition MaxPayload :: u32 where [simp]: "MaxPayload = 0x100000"

definition FInline :: u16 where [simp]: "FInline = 0x0001"
definition FArena :: u16 where [simp]: "FArena = 0x0002"
definition FNotification :: u16 where [simp]: "FNotification = 0x0004"
definition FRequest :: u16 where [simp]: "FRequest = 0x0008"
definition FReply :: u16 where [simp]: "FReply = 0x0010"
definition FCancel :: u16 where [simp]: "FCancel = 0x0020"
definition FControl :: u16 where [simp]: "FControl = 0x0040"
definition FMore :: u16 where [simp]: "FMore = 0x0080"

definition fPlacementMask :: u16 where "fPlacementMask = FInline OR FArena"
definition fPatternMask :: u16 where "fPatternMask = FNotification OR FRequest OR FReply OR FCancel"
definition fKnownMask :: u16 where "fKnownMask = fPlacementMask OR fPatternMask OR FControl OR FMore"

lemma mask_values [simp]:
  "fPlacementMask = 0x03" "fPatternMask = 0x3C" "fKnownMask = 0xFF"
  by (simp_all add: fPlacementMask_def fPatternMask_def fKnownMask_def)

definition KindAttachRequest :: u32 where "KindAttachRequest = 1"
definition KindAttachReply :: u32 where "KindAttachReply = 2"
definition KindError :: u32 where "KindError = 3"
definition KindCapabilityAbsent :: u32 where "KindCapabilityAbsent = 4"
definition KindOverflow :: u32 where "KindOverflow = 5"
definition KindProducerReaped :: u32 where "KindProducerReaped = 6"
definition KindEpochChange :: u32 where "KindEpochChange = 7"
definition KindModuleBase :: u32 where "KindModuleBase = 256"

text \<open>The Go type has a field and a constant named \<open>WireVersion\<close>; the field is \<open>FrameVersion\<close> here.\<close>

record Frame =
  HdrFlags :: u16
  FrameVersion :: u16
  EventKind :: u32
  PrincipalRef :: u32
  CorrelationID :: u64
  Seq :: u64
  LogicalTS :: u64
  PayloadRef :: u64
  PayloadLen :: u32
  SrcHandle :: u32
  DstHandle :: u32
  Generation :: u32

definition zero_Frame :: Frame where
  "zero_Frame = \<lparr>HdrFlags = 0, FrameVersion = 0, EventKind = 0, PrincipalRef = 0,
     CorrelationID = 0, Seq = 0, LogicalTS = 0, PayloadRef = 0, PayloadLen = 0,
     SrcHandle = 0, DstHandle = 0, Generation = 0\<rparr>"

datatype Result =
  OK | ErrShort | ErrMagic | ErrVersion | ErrFlags | ErrPayloadLen | ErrCorrelation | ErrReserved

fun Result_String :: "Result \<Rightarrow> string" where
  "Result_String OK = ''OK''"
| "Result_String ErrShort = ''ERR_SHORT''"
| "Result_String ErrMagic = ''ERR_MAGIC''"
| "Result_String ErrVersion = ''ERR_VERSION''"
| "Result_String ErrFlags = ''ERR_FLAGS''"
| "Result_String ErrPayloadLen = ''ERR_PAYLOAD_LEN''"
| "Result_String ErrCorrelation = ''ERR_CORRELATION''"
| "Result_String ErrReserved = ''ERR_RESERVED''"

section \<open>Validation\<close>

definition exactlyOne :: "u16 \<Rightarrow> bool" where
  "exactlyOne v \<longleftrightarrow> v \<noteq> 0 \<and> v AND (v - 1) = 0"

definition Validate :: "Frame \<Rightarrow> Result" where
  "Validate f =
    (if FrameVersion f \<noteq> WireVersion then ErrVersion
     else if HdrFlags f AND NOT fKnownMask \<noteq> 0 then ErrFlags
     else if \<not> exactlyOne (HdrFlags f AND fPatternMask) then ErrFlags
     else let placement = HdrFlags f AND fPlacementMask;
              pattern = HdrFlags f AND fPatternMask in
       if PayloadLen f > 0 \<and> \<not> exactlyOne placement then ErrFlags
       else if PayloadLen f > 0 \<and> PayloadLen f > MaxPayload then ErrPayloadLen
       else if PayloadLen f = 0 \<and> placement \<noteq> 0 then ErrFlags
       else if PayloadLen f = 0 \<and> PayloadRef f \<noteq> 0 then ErrPayloadLen
       else if HdrFlags f AND FMore \<noteq> 0 \<and>
         (pattern \<noteq> FRequest \<and> pattern \<noteq> FReply \<or> placement \<noteq> FInline \<or> PayloadLen f = 0)
         then ErrFlags
       else if HdrFlags f AND FArena = 0 \<and> Generation f \<noteq> 0 then ErrFlags
       else if HdrFlags f AND FNotification \<noteq> 0 \<and> CorrelationID f \<noteq> 0 then ErrCorrelation
       else if HdrFlags f AND FNotification = 0 \<and> CorrelationID f = 0 then ErrCorrelation
       else OK)"

section \<open>Encoder, decoder and placement check\<close>

text \<open>
  \<open>Encode f out\<close> returns the byte count and the buffer afterwards; \<open>Decode bs out\<close> the
  result and the frame variable afterwards.
\<close>

definition Encode :: "Frame \<Rightarrow> bytes \<Rightarrow> nat \<times> bytes" where
  "Encode f out =
    (if length out < HdrLen then (0, out)
     else if Validate f \<noteq> OK then (0, out)
     else
       (let b = clear_prefix HdrLen out;
            b = put_u32 0 WireMagic b;
            b = put_u16 4 (HdrFlags f) b;
            b = put_u16 6 (FrameVersion f) b;
            b = put_u32 8 (EventKind f) b;
            b = put_u32 12 (PrincipalRef f) b;
            b = put_u64 16 (CorrelationID f) b;
            b = put_u64 24 (Seq f) b;
            b = put_u64 32 (LogicalTS f) b;
            b = put_u64 40 (PayloadRef f) b;
            b = put_u32 48 (PayloadLen f) b;
            b = put_u32 52 (SrcHandle f) b;
            b = put_u32 56 (DstHandle f) b;
            b = put_u32 60 (Generation f) b
        in (HdrLen, b)))"

definition Decode :: "bytes \<Rightarrow> Frame \<Rightarrow> Result \<times> Frame" where
  "Decode bs out =
    (if length bs < HdrLen then (ErrShort, out)
     else if get_u32 bs 0 \<noteq> WireMagic then (ErrMagic, out)
     else
       (let f = \<lparr>HdrFlags = get_u16 bs 4, FrameVersion = get_u16 bs 6,
                 EventKind = get_u32 bs 8, PrincipalRef = get_u32 bs 12,
                 CorrelationID = get_u64 bs 16, Seq = get_u64 bs 24,
                 LogicalTS = get_u64 bs 32, PayloadRef = get_u64 bs 40,
                 PayloadLen = get_u32 bs 48, SrcHandle = get_u32 bs 52,
                 DstHandle = get_u32 bs 56, Generation = get_u32 bs 60\<rparr>
        in if Validate f \<noteq> OK then (Validate f, out) else (OK, f)))"

definition CheckPlacement :: "Frame \<Rightarrow> u32 \<Rightarrow> u64 \<Rightarrow> Result" where
  "CheckPlacement f slotSize arenaSize =
    (if Validate f \<noteq> OK then Validate f
     else if PayloadLen f = 0 then OK
     else if HdrFlags f AND FInline \<noteq> 0 then
       (let end = PayloadRef f + ucast (PayloadLen f) in
        if end < PayloadRef f then ErrPayloadLen
        else if PayloadRef f < of_nat HdrLen \<or> end > ucast slotSize then ErrPayloadLen
        else OK)
     else if (ucast (PayloadLen f) :: u64) > arenaSize then ErrPayloadLen
     else OK)"

section \<open>The abstract wire\<close>

text \<open>
  What a frame is allowed to be, without masks: one message pattern, a payload placement
  that is absent exactly when there is no payload, a control mark, and a fragment mark
  that only an inline request or reply may carry.
\<close>

datatype pattern = PatNotification | PatRequest | PatReply | PatCancel
datatype placement = NoPayload | Inline | Arena

fun pattern_bit :: "pattern \<Rightarrow> u16" where
  "pattern_bit PatNotification = FNotification"
| "pattern_bit PatRequest = FRequest"
| "pattern_bit PatReply = FReply"
| "pattern_bit PatCancel = FCancel"

fun placement_bit :: "placement \<Rightarrow> u16" where
  "placement_bit NoPayload = 0"
| "placement_bit Inline = FInline"
| "placement_bit Arena = FArena"

definition flags_of :: "pattern \<Rightarrow> placement \<Rightarrow> bool \<Rightarrow> bool \<Rightarrow> u16" where
  "flags_of pat pl control frag =
     pattern_bit pat OR placement_bit pl OR (if control then FControl else 0)
       OR (if frag then FMore else 0)"

text \<open>\<open>control\<close> is free: the \<open>FControl\<close> flag constrains nothing else.\<close>

definition well_formed :: "Frame \<Rightarrow> pattern \<Rightarrow> placement \<Rightarrow> bool \<Rightarrow> bool" where
  "well_formed f pat pl frag \<longleftrightarrow>
     FrameVersion f = WireVersion \<and>
     PayloadLen f \<le> MaxPayload \<and>
     (pl = NoPayload \<longleftrightarrow> PayloadLen f = 0) \<and>
     (pl = NoPayload \<longrightarrow> PayloadRef f = 0) \<and>
     (pl \<noteq> Arena \<longrightarrow> Generation f = 0) \<and>
     (pat = PatNotification \<longleftrightarrow> CorrelationID f = 0) \<and>
     (frag \<longrightarrow> pat \<in> {PatRequest, PatReply} \<and> pl = Inline)"

lemma exactlyOne_iff: "exactlyOne v \<longleftrightarrow> (\<exists>k < 16. v = 2 ^ k)"
  unfolding exactlyOne_def by (subst word_pow2_iff) simp

lemma ex_less_16: "(\<exists>k < (16::nat). P k) \<longleftrightarrow> P 0 \<or> P 1 \<or> P 2 \<or> P 3 \<or> P 4 \<or> P 5 \<or> P 6 \<or> P 7 \<or>
  P 8 \<or> P 9 \<or> P 10 \<or> P 11 \<or> P 12 \<or> P 13 \<or> P 14 \<or> P 15"
  by (auto simp: numeral_eq_Suc less_Suc_eq)

lemma and_mask_absorb: "w AND m = v \<Longrightarrow> v AND m = (v :: u16)"
  by (metis and.assoc and.idem)

lemma exactlyOne_pattern: "exactlyOne (w AND 0x3C) \<longleftrightarrow> w AND 0x3C \<in> {4, 8, 0x10, 0x20}"
proof
  assume "exactlyOne (w AND 0x3C)"
  then obtain k where "k < 16" "w AND 0x3C = 2 ^ k" by (auto simp: exactlyOne_iff)
  moreover from this(2) have "(2 ^ k :: u16) AND 0x3C = 2 ^ k" by (rule and_mask_absorb)
  ultimately have "\<exists>k < 16. w AND 0x3C = 2 ^ k \<and> (2 ^ k :: u16) AND 0x3C = 2 ^ k" by blast
  then show "w AND 0x3C \<in> {4, 8, 0x10, 0x20}"
    by (simp add: ex_less_16)
qed (auto simp: exactlyOne_def)

lemma exactlyOne_placement: "exactlyOne (w AND 3) \<Longrightarrow> w AND 3 \<in> {1, 2}"
proof -
  assume "exactlyOne (w AND 3)"
  then obtain k where "k < 16" "w AND 3 = 2 ^ k" by (auto simp: exactlyOne_iff)
  moreover from this(2) have "(2 ^ k :: u16) AND 3 = 2 ^ k" by (rule and_mask_absorb)
  ultimately have "\<exists>k < 16. w AND 3 = 2 ^ k \<and> (2 ^ k :: u16) AND 3 = 2 ^ k" by blast
  then show "w AND 3 \<in> {1, 2}"
    by (simp add: ex_less_16)
qed

lemma and_exp_cases: "(w :: u16) AND 2 ^ n \<in> {0, 2 ^ n}"
proof -
  have "w AND 2 ^ n = (if bit w n then 2 ^ n else 0)"
    by (rule bit_eqI) (auto simp: bit_and_iff bit_exp_iff)
  then show ?thesis by simp
qed

lemma flags_split:
  fixes w :: u16
  assumes "w AND NOT 0xFF = 0"
  shows "w = (w AND 0x3C) OR (w AND 3) OR (w AND 0x40) OR (w AND 0x80)"
proof -
  have "w = w AND (0xFF OR NOT 0xFF)" by simp
  also have "\<dots> = w AND 0xFF" using assms by (simp only: bit.conj_disj_distrib) simp
  also have "\<dots> = w AND (0x3C OR 3 OR 0x40 OR 0x80)" by simp
  finally show ?thesis by (simp only: bit.conj_disj_distrib or.assoc)
qed

lemma Validate_flags_of:
  "HdrFlags f = flags_of pat pl control frag \<Longrightarrow> Validate f = OK \<longleftrightarrow> well_formed f pat pl frag"
  by (cases pat; cases pl; cases control; cases frag)
    (simp_all add: Validate_def flags_of_def well_formed_def exactlyOne_def word_gt_0 flip: not_le)

lemma Validate_OK_flags:
  assumes "Validate f = OK"
  shows "\<exists>pat pl control frag. HdrFlags f = flags_of pat pl control frag"
proof -
  let ?w = "HdrFlags f"
  from assms have known: "?w AND NOT 0xFF = 0" and one: "exactlyOne (?w AND 0x3C)"
    and pl: "exactlyOne (?w AND 3) \<or> ?w AND 3 = 0"
    by (auto simp: Validate_def Let_def word_gt_0 split: if_splits)
  from one have "?w AND 0x3C \<in> range pattern_bit"
    unfolding exactlyOne_pattern
    by (auto simp: image_iff intro: exI [of _ PatNotification] exI [of _ PatRequest] exI [of _ PatReply] exI [of _ PatCancel])
  then obtain pat where pat: "?w AND 0x3C = pattern_bit pat" by blast
  from pl have "?w AND 3 \<in> range placement_bit"
    by (auto dest!: exactlyOne_placement simp: image_iff
        intro: exI [of _ NoPayload] exI [of _ Inline] exI [of _ Arena])
  then obtain pl where pl: "?w AND 3 = placement_bit pl" by blast
  have "?w AND 0x40 = (if ?w AND 0x40 \<noteq> 0 then FControl else 0)"
    and "?w AND 0x80 = (if ?w AND 0x80 \<noteq> 0 then FMore else 0)"
    using and_exp_cases [of ?w 6] and_exp_cases [of ?w 7] by auto
  with pat pl flags_split [OF known] have
    "?w = flags_of pat pl (?w AND 0x40 \<noteq> 0) (?w AND 0x80 \<noteq> 0)"
    by (simp add: flags_of_def)
  then show ?thesis by blast
qed

text \<open>
  C8. The bit-level validation is exact: a frame passes \<open>Validate\<close> if and only if its flags are
  those of one message pattern with at most one placement, and its fields obey the rules of
  that pattern and placement (no payload exactly without placement, payload at most 1 MiB,
  generation only for arena frames, correlation id zero exactly for notifications,
  fragments only for inline requests and replies).
\<close>

theorem Validate_spec:
  "Validate f = OK \<longleftrightarrow>
   (\<exists>pat pl control frag. HdrFlags f = flags_of pat pl control frag \<and> well_formed f pat pl frag)"
  using Validate_OK_flags Validate_flags_of by blast

section \<open>Layout and round trips\<close>

text \<open>The header as the concatenation of its fields.\<close>

definition frame_bytes :: "Frame \<Rightarrow> bytes" where
  "frame_bytes f =
     le32 WireMagic @ le16 (HdrFlags f) @ le16 (FrameVersion f) @ le32 (EventKind f) @
     le32 (PrincipalRef f) @ le64 (CorrelationID f) @ le64 (Seq f) @ le64 (LogicalTS f) @
     le64 (PayloadRef f) @ le32 (PayloadLen f) @ le32 (SrcHandle f) @ le32 (DstHandle f) @
     le32 (Generation f)"

lemma length_frame_bytes [simp]: "length (frame_bytes f) = 64"
  by (simp add: frame_bytes_def)

lemma Encode_layout:
  assumes "64 \<le> length out" and "Validate f = OK"
  shows "Encode f out = (64, frame_bytes f @ drop 64 out)"
proof -
  from assms(1) have "clear_prefix 64 out = replicate 64 0 @ drop 64 out"
    by (simp add: clear_prefix_def blit_def)
  with assms show ?thesis
    by (simp add: Encode_def Let_def put_skip put_head frame_bytes_def)
qed

lemma Encode_rejects: "length out < 64 \<or> Validate f \<noteq> OK \<Longrightarrow> Encode f out = (0, out)"
  by (auto simp: Encode_def)

lemma length_Encode [simp]: "length (snd (Encode f out)) = length out"
  by (cases "length out < 64 \<or> Validate f \<noteq> OK")
    (auto simp: Encode_rejects Encode_layout not_less)

lemma Decode_frame_bytes:
  "Decode (frame_bytes f @ rest) out = (if Validate f = OK then (OK, f) else (Validate f, out))"
  by (cases f) (simp add: Decode_def Let_def frame_bytes_def layout)

lemma Decode_OK_bytes:
  assumes "Decode bs out = (OK, f)"
  shows "take 64 bs = frame_bytes f" and "64 \<le> length bs" and "Validate f = OK"
proof -
  let ?f = "\<lparr>HdrFlags = get_u16 bs 4, FrameVersion = get_u16 bs 6,
                 EventKind = get_u32 bs 8, PrincipalRef = get_u32 bs 12,
                 CorrelationID = get_u64 bs 16, Seq = get_u64 bs 24,
                 LogicalTS = get_u64 bs 32, PayloadRef = get_u64 bs 40,
                 PayloadLen = get_u32 bs 48, SrcHandle = get_u32 bs 52,
                 DstHandle = get_u32 bs 56, Generation = get_u32 bs 60\<rparr>"
  from assms have len: "64 \<le> length bs" and magic: "get_u32 bs 0 = WireMagic"
    and f: "f = ?f" and valid: "Validate f = OK"
    by (auto simp: Decode_def Let_def split: if_splits)
  show "64 \<le> length bs" "Validate f = OK" by (fact len, fact valid)
  have "frame_bytes f =
    sub bs 0 4 @ sub bs 4 2 @ sub bs 6 2 @ sub bs 8 4 @ sub bs 12 4 @ sub bs 16 8 @ sub bs 24 8 @
    sub bs 32 8 @ sub bs 40 8 @ sub bs 48 4 @ sub bs 52 4 @ sub bs 56 4 @ sub bs 60 4"
    unfolding frame_bytes_def f magic [symmetric] using len by (simp add: le_get del: sub_0)
  also have "\<dots> = sub bs 0 64"
    using sub_split [of bs 0 4 60] sub_split [of bs 4 2 58] sub_split [of bs 6 2 56]
      sub_split [of bs 8 4 52] sub_split [of bs 12 4 48] sub_split [of bs 16 8 40]
      sub_split [of bs 24 8 32] sub_split [of bs 32 8 24] sub_split [of bs 40 8 16]
      sub_split [of bs 48 4 12] sub_split [of bs 52 4 8] sub_split [of bs 56 4 4]
    by (simp del: sub_0)
  finally show "take 64 bs = frame_bytes f" by simp
qed

lemma Decode_error_untouched: "Decode bs out = (r, f) \<Longrightarrow> r \<noteq> OK \<Longrightarrow> f = out"
  by (auto simp: Decode_def Let_def split: if_splits)

text \<open>The frame codec as a provider of the fixed-width contract.\<close>

definition frame_valid :: "Frame \<Rightarrow> bool" where
  "frame_valid f \<longleftrightarrow> Validate f = OK"

definition enc_frame :: "Frame \<Rightarrow> bytes" where
  "enc_frame f = snd (Encode f (replicate HdrLen 0))"

definition dec_frame :: "bytes \<Rightarrow> Frame option" where
  "dec_frame bs = (case Decode bs zero_Frame of (OK, f) \<Rightarrow> Some f | _ \<Rightarrow> None)"

lemma enc_frame_eq: "frame_valid f \<Longrightarrow> enc_frame f = frame_bytes f"
  by (simp add: enc_frame_def frame_valid_def Encode_layout)

lemma dec_frame_Some_iff: "dec_frame bs = Some f \<longleftrightarrow> Decode bs out = (OK, f)"
  by (auto simp: dec_frame_def Decode_def Let_def split: Result.splits if_splits)

interpretation frame: fixed_codec HdrLen frame_valid "\<lambda>_ _. True" enc_frame dec_frame
proof unfold_locales
  fix f bs rest
  show "length (enc_frame f) = HdrLen" if "frame_valid f"
    using that by (simp add: enc_frame_eq)
  show "dec_frame (enc_frame f @ rest) = Some f" if "frame_valid f"
    using that Decode_frame_bytes [of f rest zero_Frame]
    by (simp add: enc_frame_eq dec_frame_Some_iff [where out = zero_Frame] frame_valid_def)
  assume dec: "dec_frame bs = Some f"
  then have OK: "Decode bs zero_Frame = (OK, f)"
    by (simp add: dec_frame_Some_iff [where out = zero_Frame])
  show "HdrLen \<le> length bs" and "frame_valid f"
    using Decode_OK_bytes [OF OK] by (simp_all add: frame_valid_def)
  then show "enc_frame f = take HdrLen bs"
    using Decode_OK_bytes [OF OK] by (simp add: enc_frame_eq)
qed simp

section \<open>Properties\<close>

text \<open>
  C9. Frame round trip: encoding a valid frame into a buffer of at least 64 bytes writes
  exactly the first 64 bytes, and decoding the buffer gives the frame back, field by field,
  whatever follows the header and whatever the target variable held.
\<close>

theorem frame_roundtrip:
  assumes "Validate f = OK" and "64 \<le> length out"
  shows "fst (Encode f out) = HdrLen \<and> drop HdrLen (snd (Encode f out)) = drop HdrLen out \<and>
    Decode (snd (Encode f out)) g = (OK, f)"
  using assms by (simp add: Encode_layout Decode_frame_bytes)

definition sample_frame :: Frame where
  "sample_frame = \<lparr>HdrFlags = 0x89, FrameVersion = 3, EventKind = 8961, PrincipalRef = 19,
     CorrelationID = 7, Seq = 1, LogicalTS = 2, PayloadRef = 64, PayloadLen = 40,
     SrcHandle = 5, DstHandle = 6, Generation = 0\<rparr>"

lemma sample_frame_valid: "Validate sample_frame = OK"
  by (simp add: Validate_def sample_frame_def exactlyOne_def)

theorem frame_roundtrip_witness:
  "Decode (snd (Encode sample_frame (replicate 80 9))) zero_Frame = (OK, sample_frame)"
  using frame_roundtrip [OF sample_frame_valid, of "replicate 80 9" zero_Frame] by simp

text \<open>
  C10. The header encoding is canonical: whatever decodes to a frame is the encoding of that
  frame, so encoding the frame over the buffer it was read from changes no byte; and a
  failed decode leaves the caller's frame variable as it was.
\<close>

theorem frame_canonical:
  "(Decode bs g = (OK, f) \<longrightarrow> Encode f bs = (HdrLen, bs)) \<and>
   (fst (Decode bs g) \<noteq> OK \<longrightarrow> snd (Decode bs g) = g)"
proof (intro conjI impI)
  assume dec: "Decode bs g = (OK, f)"
  have "frame_bytes f @ drop 64 bs = bs"
    using Decode_OK_bytes(1) [OF dec] by (metis append_take_drop_id)
  with Decode_OK_bytes(2,3) [OF dec] show "Encode f bs = (HdrLen, bs)"
    by (simp add: Encode_layout)
qed (metis Decode_error_untouched prod.collapse)

theorem frame_canonical_witness:
  "Encode sample_frame (frame_bytes sample_frame) = (HdrLen, frame_bytes sample_frame) \<and>
   snd (Decode [] sample_frame) = sample_frame"
proof -
  have "Decode (frame_bytes sample_frame) zero_Frame = (OK, sample_frame)"
    using Decode_frame_bytes [of sample_frame "[]"] sample_frame_valid by simp
  moreover have "fst (Decode [] sample_frame) \<noteq> OK"
    by (simp add: Decode_def)
  ultimately show ?thesis
    using frame_canonical by blast
qed

text \<open>
  C11. The placement check is exact and overflow-free: it accepts a frame if and only if the
  frame is valid and its payload is empty, or an inline payload lies, as natural numbers,
  between the header and the end of the slot, or an arena payload is no longer than the arena.
\<close>

theorem CheckPlacement_iff:
  "CheckPlacement f slotSize arenaSize = OK \<longleftrightarrow>
   Validate f = OK \<and>
   (PayloadLen f = 0 \<or>
    (if HdrFlags f AND FInline \<noteq> 0
     then HdrLen \<le> unat (PayloadRef f) \<and>
          unat (PayloadRef f) + unat (PayloadLen f) \<le> unat slotSize
     else unat (PayloadLen f) \<le> unat arenaSize))"
proof -
  let ?e = "PayloadRef f + ucast (PayloadLen f)"
  have len: "unat (ucast (PayloadLen f) :: u64) = unat (PayloadLen f)"
    and slot: "unat (ucast slotSize :: u64) = unat slotSize"
    by simp_all
  have "unat (PayloadLen f) < 2 ^ 32" "unat slotSize < 2 ^ 32" "unat (PayloadRef f) < 2 ^ 64"
    using unat_u32_less unat_u64_less by simp_all
  then have "\<not> ?e < PayloadRef f \<and> \<not> (PayloadRef f < of_nat HdrLen \<or> ?e > ucast slotSize) \<longleftrightarrow>
    HdrLen \<le> unat (PayloadRef f) \<and> unat (PayloadRef f) + unat (PayloadLen f) \<le> unat slotSize"
    by (auto simp: word_less_nat_alt len slot unat_word_ariths not_less mod_if)
  then show ?thesis
    by (auto simp: CheckPlacement_def Let_def word_less_nat_alt len not_less)
qed

end
