(* ===== verification/Module_Protocol.thy ===== *)
theory Module_Protocol
  imports Interfaces
begin

text \<open>
  The module message envelope, \<^verbatim>\<open>server-go/bus/module_protocol.go\<close>: the 40-byte header
  that precedes the body of every stage request and result. Proved here: the layout of the
  header, both round trips, and that a decoded message is valid and its body is present in
  the payload it came from.
\<close>

section \<open>Data\<close>

definition ModuleMessageMagic :: u32 where [simp]: "ModuleMessageMagic = 0x444f4d41"
definition ModuleMessageVersion :: u16 where [simp]: "ModuleMessageVersion = 1"
definition ModuleMessageHeaderLen :: nat where [simp]: "ModuleMessageHeaderLen = 40"
definition ModuleMessageMaxBody :: u32 where [simp]: "ModuleMessageMaxBody = 16 * 1024 * 1024"

type_synonym ModuleOperation = u16
type_synonym ModuleStatus = u16

definition ModuleOpInvoke :: ModuleOperation where [simp]: "ModuleOpInvoke = 1"
definition ModuleOpResult :: ModuleOperation where [simp]: "ModuleOpResult = 2"

definition ModuleStatusOK :: ModuleStatus where [simp]: "ModuleStatusOK = 0"
definition ModuleStatusCapabilityAbsent :: ModuleStatus where [simp]: "ModuleStatusCapabilityAbsent = 1"
definition ModuleStatusCancelled :: ModuleStatus where [simp]: "ModuleStatusCancelled = 2"
definition ModuleStatusDeadlineExceeded :: ModuleStatus where [simp]: "ModuleStatusDeadlineExceeded = 3"
definition ModuleStatusInvalidRequest :: ModuleStatus where [simp]: "ModuleStatusInvalidRequest = 4"
definition ModuleStatusInternal :: ModuleStatus where [simp]: "ModuleStatusInternal = 5"

record ModuleMessage =
  Operation :: ModuleOperation
  Status :: ModuleStatus
  StageID :: u32
  Flags :: u32
  BodyLen :: u32
  DeadlineNS :: u64
  TraceID :: u64

section \<open>Operations\<close>

definition valid_message :: "ModuleMessage \<Rightarrow> bool" where
  "valid_message m \<longleftrightarrow>
    (if Operation m \<noteq> ModuleOpInvoke \<and> Operation m \<noteq> ModuleOpResult then False
     else if Status m > ModuleStatusInternal \<or>
       (Operation m = ModuleOpInvoke \<and> Status m \<noteq> ModuleStatusOK) then False
     else StageID m \<noteq> 0 \<and> Flags m = 0 \<and> BodyLen m \<le> ModuleMessageMaxBody)"

text \<open>\<open>EncodeMessage m out\<close> returns the result and the buffer afterwards.\<close>

definition EncodeMessage :: "ModuleMessage \<Rightarrow> bytes \<Rightarrow> (err + nat) \<times> bytes" where
  "EncodeMessage m out =
    (if length out < ModuleMessageHeaderLen \<or> \<not> valid_message m then (Inl ErrModuleMessage, out)
     else
       (let b = clear_prefix ModuleMessageHeaderLen out;
            b = put_u32 0 ModuleMessageMagic b;
            b = put_u16 4 ModuleMessageVersion b;
            b = put_u16 6 (of_nat ModuleMessageHeaderLen) b;
            b = put_u16 8 (Operation m) b;
            b = put_u16 10 (Status m) b;
            b = put_u32 12 (StageID m) b;
            b = put_u32 16 (Flags m) b;
            b = put_u32 20 (BodyLen m) b;
            b = put_u64 24 (DeadlineNS m) b;
            b = put_u64 32 (TraceID m) b
        in (Inr ModuleMessageHeaderLen, b)))"

definition DecodeModuleMessage :: "bytes \<Rightarrow> err + ModuleMessage" where
  "DecodeModuleMessage bs =
    (if length bs < ModuleMessageHeaderLen \<or> get_u32 bs 0 \<noteq> ModuleMessageMagic \<or>
        get_u16 bs 4 \<noteq> ModuleMessageVersion \<or>
        get_u16 bs 6 \<noteq> of_nat ModuleMessageHeaderLen then Inl ErrModuleMessage
     else
       (let m = \<lparr>Operation = get_u16 bs 8, Status = get_u16 bs 10, StageID = get_u32 bs 12,
                 Flags = get_u32 bs 16, BodyLen = get_u32 bs 20, DeadlineNS = get_u64 bs 24,
                 TraceID = get_u64 bs 32\<rparr>
        in if \<not> valid_message m \<or> unat (BodyLen m) > length bs - ModuleMessageHeaderLen
           then Inl ErrModuleMessage else Inr m))"

definition DeadlineExpired :: "ModuleMessage \<Rightarrow> u64 \<Rightarrow> bool" where
  "DeadlineExpired m nowNS \<longleftrightarrow> DeadlineNS m \<noteq> 0 \<and> nowNS \<ge> DeadlineNS m"

section \<open>Layout\<close>

definition message_bytes :: "ModuleMessage \<Rightarrow> bytes" where
  "message_bytes m =
     le32 ModuleMessageMagic @ le16 ModuleMessageVersion @ le16 40 @ le16 (Operation m) @
     le16 (Status m) @ le32 (StageID m) @ le32 (Flags m) @ le32 (BodyLen m) @
     le64 (DeadlineNS m) @ le64 (TraceID m)"

lemma length_message_bytes [simp]: "length (message_bytes m) = 40"
  by (simp add: message_bytes_def)

lemma EncodeMessage_layout:
  assumes "40 \<le> length out" and "valid_message m"
  shows "EncodeMessage m out = (Inr 40, message_bytes m @ drop 40 out)"
proof -
  from assms(1) have "clear_prefix 40 out = replicate 40 0 @ drop 40 out"
    by (simp add: clear_prefix_def blit_def)
  with assms show ?thesis
    by (simp add: EncodeMessage_def Let_def put_skip put_head message_bytes_def)
qed

lemma EncodeMessage_rejects:
  "length out < 40 \<or> \<not> valid_message m \<Longrightarrow> EncodeMessage m out = (Inl ErrModuleMessage, out)"
  by (auto simp: EncodeMessage_def)

lemma Decode_message_bytes:
  "DecodeModuleMessage (message_bytes m @ rest) =
     (if valid_message m \<and> unat (BodyLen m) \<le> length rest then Inr m else Inl ErrModuleMessage)"
  by (cases m) (auto simp: DecodeModuleMessage_def Let_def message_bytes_def layout)

lemma Decode_message_Inr:
  assumes "DecodeModuleMessage bs = Inr m"
  shows "take 40 bs = message_bytes m" and "40 \<le> length bs" and "valid_message m"
    and "unat (BodyLen m) \<le> length bs - 40"
proof -
  let ?m = "\<lparr>Operation = get_u16 bs 8, Status = get_u16 bs 10, StageID = get_u32 bs 12,
                 Flags = get_u32 bs 16, BodyLen = get_u32 bs 20, DeadlineNS = get_u64 bs 24,
                 TraceID = get_u64 bs 32\<rparr>"
  from assms have len: "40 \<le> length bs" and magic: "get_u32 bs 0 = ModuleMessageMagic"
    and version: "get_u16 bs 4 = ModuleMessageVersion" and hdr: "get_u16 bs 6 = 40"
    and m: "m = ?m" and valid: "valid_message m"
    and body: "unat (BodyLen m) \<le> length bs - 40"
    by (auto simp: DecodeModuleMessage_def Let_def split: if_splits)
  show "40 \<le> length bs" "valid_message m" "unat (BodyLen m) \<le> length bs - 40"
    by (fact len, fact valid, fact body)
  have "message_bytes m =
    sub bs 0 4 @ sub bs 4 2 @ sub bs 6 2 @ sub bs 8 2 @ sub bs 10 2 @ sub bs 12 4 @ sub bs 16 4 @
    sub bs 20 4 @ sub bs 24 8 @ sub bs 32 8"
    unfolding message_bytes_def m magic [symmetric] version [symmetric] hdr [symmetric]
    using len by (simp add: le_get del: sub_0)
  also have "\<dots> = sub bs 0 40"
    using sub_split [of bs 0 4 36] sub_split [of bs 4 2 34] sub_split [of bs 6 2 32]
      sub_split [of bs 8 2 30] sub_split [of bs 10 2 28] sub_split [of bs 12 4 24]
      sub_split [of bs 16 4 20] sub_split [of bs 20 4 16] sub_split [of bs 24 8 8]
    by (simp del: sub_0)
  finally show "take 40 bs = message_bytes m" by simp
qed

lemma Decode_message_split:
  "DecodeModuleMessage bs = Inr m \<Longrightarrow>
   bs = message_bytes m @ sub bs 40 (unat (BodyLen m)) @ drop (40 + unat (BodyLen m)) bs"
  by (metis Decode_message_Inr(1) append_take_drop_id drop_drop sub_def add.commute)

lemma Decode_message_Inl: "DecodeModuleMessage bs = Inl e \<Longrightarrow> e = ErrModuleMessage"
  by (auto simp: DecodeModuleMessage_def Let_def split: if_splits)

definition enc_message :: "ModuleMessage \<Rightarrow> bytes" where
  "enc_message m = snd (EncodeMessage m (replicate ModuleMessageHeaderLen 0))"

definition dec_message :: "bytes \<Rightarrow> ModuleMessage option" where
  "dec_message bs = (case DecodeModuleMessage bs of Inl _ \<Rightarrow> None | Inr m \<Rightarrow> Some m)"

lemma enc_message_eq: "valid_message m \<Longrightarrow> enc_message m = message_bytes m"
  by (simp add: enc_message_def EncodeMessage_layout)

lemma dec_message_Some_iff: "dec_message bs = Some m \<longleftrightarrow> DecodeModuleMessage bs = Inr m"
  by (simp add: dec_message_def split: sum.splits)

interpretation amod: fixed_codec ModuleMessageHeaderLen valid_message
  "\<lambda>m n. unat (BodyLen m) \<le> n" enc_message dec_message
proof unfold_locales
  fix m bs rest
  show "length (enc_message m) = ModuleMessageHeaderLen" if "valid_message m"
    using that by (simp add: enc_message_eq)
  show "dec_message (enc_message m @ rest) = Some m"
    if "valid_message m" "unat (BodyLen m) \<le> length rest"
    using that by (simp add: enc_message_eq dec_message_Some_iff Decode_message_bytes)
  assume dec: "dec_message bs = Some m"
  then have Inr: "DecodeModuleMessage bs = Inr m"
    by (simp add: dec_message_Some_iff)
  show "ModuleMessageHeaderLen \<le> length bs" and "valid_message m"
    and "unat (BodyLen m) \<le> length bs - ModuleMessageHeaderLen"
    using Decode_message_Inr [OF Inr] by simp_all
  then show "enc_message m = take ModuleMessageHeaderLen bs"
    using Decode_message_Inr [OF Inr] by (simp add: enc_message_eq)
qed

section \<open>Properties\<close>

definition sample_message :: ModuleMessage where
  "sample_message = \<lparr>Operation = 1, Status = 0, StageID = 1, Flags = 0, BodyLen = 2,
     DeadlineNS = 77, TraceID = 5\<rparr>"

lemma sample_message_valid: "valid_message sample_message"
  by (simp add: valid_message_def sample_message_def)

text \<open>
  C12. Message round trip: a valid message encodes into exactly the first 40 bytes of any
  buffer that is long enough, and decoding a payload that starts with that header gives the
  message back if and only if the body it announces is there; otherwise the decoder fails.
\<close>

theorem message_roundtrip:
  assumes "valid_message m" and "ModuleMessageHeaderLen \<le> length out"
  shows "\<exists>hdr. EncodeMessage m out = (Inr ModuleMessageHeaderLen, hdr @ drop ModuleMessageHeaderLen out) \<and>
    length hdr = ModuleMessageHeaderLen \<and>
    (\<forall>body. DecodeModuleMessage (hdr @ body) =
       (if unat (BodyLen m) \<le> length body then Inr m else Inl ErrModuleMessage))"
  using assms by (intro exI [of _ "message_bytes m"]) (simp add: EncodeMessage_layout Decode_message_bytes)

theorem message_roundtrip_witness:
  "\<exists>hdr. EncodeMessage sample_message (replicate 50 1) = (Inr 40, hdr @ replicate 10 1) \<and>
    DecodeModuleMessage (hdr @ [8, 9]) = Inr sample_message \<and>
    DecodeModuleMessage (hdr @ [8]) = Inl ErrModuleMessage"
proof -
  have "length [8::byte] < unat (BodyLen sample_message)" "unat (BodyLen sample_message) = 2"
    by (simp_all add: sample_message_def)
  then show ?thesis
    using message_roundtrip [OF sample_message_valid, of "replicate 50 1"]
    by (fastforce simp: drop_replicate)
qed

text \<open>
  C13. The message encoding is canonical: what the decoder accepts is a valid message, its
  header is the encoding of that message byte for byte, and the announced body lies inside
  the input, so the slice the callers take after a successful decode is in range.
\<close>

theorem message_canonical:
  assumes "DecodeModuleMessage bs = Inr m"
  shows "valid_message m \<and> EncodeMessage m bs = (Inr ModuleMessageHeaderLen, bs) \<and>
    ModuleMessageHeaderLen + unat (BodyLen m) \<le> length bs \<and>
    length (sub bs ModuleMessageHeaderLen (unat (BodyLen m))) = unat (BodyLen m)"
proof -
  have "message_bytes m @ drop 40 bs = bs"
    using Decode_message_Inr(1) [OF assms] by (metis append_take_drop_id)
  with Decode_message_Inr(2-4) [OF assms] show ?thesis
    by (simp add: EncodeMessage_layout)
qed

theorem message_canonical_witness:
  "EncodeMessage sample_message (message_bytes sample_message @ [8, 9]) =
     (Inr 40, message_bytes sample_message @ [8, 9])"
proof -
  have "DecodeModuleMessage (message_bytes sample_message @ [8, 9]) = Inr sample_message"
    using sample_message_valid by (simp add: Decode_message_bytes) (simp add: sample_message_def)
  from message_canonical [OF this] show ?thesis by simp
qed

end
