(* ===== verification/Module_Stage.thy ===== *)
theory Module_Stage
  imports Module_Protocol
begin

text \<open>
  What a module handler and the runtime that calls it share
  (\<^verbatim>\<open>server-go/bus/module_runtime.go\<close>): the invocation a handler sees, its cancellation test,
  the monotonic clock, and the contract of a handler as a locale. A cancel flag is a cell
  shared between the runtime's loop, which sets it, and the handler's goroutine, which reads
  it; the cells live in a store \<open>nat \<Rightarrow> bool\<close> and the invocation holds the address of its own.
\<close>

record ModuleInvocation =
  InvStageID :: u32
  InvDeadlineNS :: u64
  InvTraceID :: u64
  InvCancelled :: "nat option"

type_synonym flag_store = "nat \<Rightarrow> bool"

text \<open>
  \<open>monotonicNowNS\<close>: the argument is what \<^verbatim>\<open>clock_gettime\<close> returned, seconds and nanoseconds,
  or None when it failed. The arithmetic is that of \<^verbatim>\<open>uint64\<close>.
\<close>

definition monotonicNowNS :: "(u64 \<times> u64) option \<Rightarrow> u64" where
  "monotonicNowNS ts = (case ts of None \<Rightarrow> 0 | Some (sec, nsec) \<Rightarrow> sec * 1000000000 + nsec)"

definition Cancelled :: "ModuleInvocation \<Rightarrow> flag_store \<Rightarrow> u64 \<Rightarrow> bool" where
  "Cancelled i flags now \<longleftrightarrow>
    (case InvCancelled i of Some a \<Rightarrow> flags a | None \<Rightarrow> False) \<or>
    (now \<noteq> 0 \<and> InvDeadlineNS i \<noteq> 0 \<and> now \<ge> InvDeadlineNS i)"

text \<open>
  A handler maps the invocation and the request body to a response body and a status. It may
  look at its cancel flag and at the clock; the store and the time are those of that moment.
\<close>

type_synonym ModuleHandler =
  "ModuleInvocation \<Rightarrow> flag_store \<Rightarrow> u64 \<Rightarrow> bytes \<Rightarrow> bytes \<times> ModuleStatus"

definition validModuleStatus :: "ModuleStatus \<Rightarrow> bool" where
  "validModuleStatus status \<longleftrightarrow> status \<le> ModuleStatusInternal"

section \<open>The contract of a handler\<close>

text \<open>
  What the documentation of \<open>ModuleHandler\<close> asks of an implementation: a known status, no
  body with a status other than OK, a body no longer than a module message may carry, and a
  cancelled invocation never answered with OK.
\<close>

locale stage_handler =
  fixes handler :: ModuleHandler
  assumes status_known: "handler i fl now req = (body, st) \<Longrightarrow> validModuleStatus st"
    and error_no_body: "handler i fl now req = (body, st) \<Longrightarrow> st \<noteq> ModuleStatusOK \<Longrightarrow> body = []"
    and body_bounded: "handler i fl now req = (body, st) \<Longrightarrow> length body \<le> unat ModuleMessageMaxBody"
    and cancelled_not_ok: "Cancelled i fl now \<Longrightarrow> handler i fl now req = (body, st) \<Longrightarrow> st \<noteq> ModuleStatusOK"
begin

lemma ok_not_cancelled: "handler i fl now req = (body, ModuleStatusOK) \<Longrightarrow> \<not> Cancelled i fl now"
  using cancelled_not_ok by blast

text \<open>So the runtime's checks on a handler's answer never change the answer of this one.\<close>

lemma runtime_check_passes:
  "handler i fl now req = (body, st) \<Longrightarrow>
   \<not> (\<not> validModuleStatus st \<or> length body > unat ModuleMessageMaxBody)"
  using status_known body_bounded by (meson not_less)

end

end
