(* ===== verification/Governance.thy ===== *)
theory Governance
  imports Module_Stage
begin

text \<open>
  The governance stage, \<^verbatim>\<open>server-go/modules/governance/governance.go\<close>: the decoder of the
  GOVQ request, the response tool-call policy, and the handler that answers with a GOVR
  response. Proved here: the decoder accepts exactly the images of an abstract request
  under a fixed layout; the policy keeps exactly the calls that are not denied, in order,
  and counts the others; the handler's answer on every branch.
\<close>

section \<open>Constants and data\<close>

definition EventEvaluate :: u32 where [simp]: "EventEvaluate = 8961"
definition StageEvaluate :: u32 where [simp]: "StageEvaluate = 1"
definition requestMagic :: u32 where [simp]: "requestMagic = 0x51564f47"
definition responseMagic :: u32 where [simp]: "responseMagic = 0x52564f47"
definition wireVersion :: u32 where [simp]: "wireVersion = 1"
definition toolCountMax :: nat where [simp]: "toolCountMax = 16"
definition toolNameMax :: nat where [simp]: "toolNameMax = 31"
definition toolNameSlot :: nat where [simp]: "toolNameSlot = 32"
definition stopReasonMax :: nat where [simp]: "stopReasonMax = 31"
definition requestToolLengthsOff :: nat where [simp]: "requestToolLengthsOff = 24"
definition requestToolNamesOff :: nat where [simp]: "requestToolNamesOff = 88"
definition requestStopReasonOff :: nat where [simp]: "requestStopReasonOff = 600"
definition requestLen :: nat where [simp]: "requestLen = 632"
definition responseStopReasonOff :: nat where [simp]: "responseStopReasonOff = 24"
definition responseLen :: nat where [simp]: "responseLen = 56"

text \<open>Go strings are byte sequences.\<close>

record policyRequest =
  active :: bool
  toolNames :: "bytes list"
  stopReason :: bytes

section \<open>Decoder\<close>

fun zeroPadding :: "bytes \<Rightarrow> bool" where
  "zeroPadding [] = True"
| "zeroPadding (item # rest) = (if item \<noteq> 0 then False else zeroPadding rest)"

fun nonzeroText :: "bytes \<Rightarrow> bool" where
  "nonzeroText [] = True"
| "nonzeroText (item # rest) = (if item = 0 then False else nonzeroText rest)"

text \<open>The loop over all tool slots: the indices still to come, and the names filled so far.\<close>

fun decode_slots :: "bytes \<Rightarrow> nat \<Rightarrow> nat list \<Rightarrow> bytes list \<Rightarrow> bytes list option" where
  "decode_slots request count [] names = Some names"
| "decode_slots request count (index # rest) names =
    (let lengthOffset = requestToolLengthsOff + index * 4;
         nameLen = unat (get_u32 request lengthOffset);
         slotOffset = requestToolNamesOff + index * toolNameSlot;
         slot = sub request slotOffset toolNameSlot
     in if nameLen > toolNameMax \<or> (index \<ge> count \<and> nameLen \<noteq> 0) \<or>
           \<not> nonzeroText (take nameLen slot) \<or> \<not> zeroPadding (drop nameLen slot)
        then None
        else decode_slots request count rest
          (if index < count then names[index := take nameLen slot] else names))"

definition decodeRequest :: "bytes \<Rightarrow> policyRequest option" where
  "decodeRequest request =
    (if length request \<noteq> requestLen \<or> get_u32 request 0 \<noteq> requestMagic \<or>
        get_u32 request 4 \<noteq> wireVersion \<or> get_u32 request 8 > 1 \<or>
        get_u32 request 12 > of_nat toolCountMax \<or> get_u32 request 16 > of_nat stopReasonMax \<or>
        get_u32 request 20 \<noteq> 0 then None
     else
       (let count = unat (get_u32 request 12) in
        case decode_slots request count [0..<toolCountMax] (replicate count []) of
          None \<Rightarrow> None
        | Some names \<Rightarrow>
          (let reasonLen = unat (get_u32 request 16);
               reasonSlot = drop requestStopReasonOff request
           in if \<not> nonzeroText (take reasonLen reasonSlot) \<or>
                 \<not> zeroPadding (drop reasonLen reasonSlot) then None
              else Some \<lparr>active = (get_u32 request 8 = 1), toolNames = names,
                         stopReason = take reasonLen reasonSlot\<rparr>)))"

section \<open>Policy\<close>

definition deniedTool :: "bytes \<Rightarrow> bool" where
  "deniedTool name \<longleftrightarrow>
    name = ascii ''Agent'' \<or> name = ascii ''spawn_agent'' \<or>
    name = ascii ''RemoteTrigger'' \<or> name = ascii ''Task''"

text \<open>The loop of \<open>evaluate\<close>: index, remaining names, drops and keep mask so far.\<close>

fun evaluate_loop :: "nat \<Rightarrow> bytes list \<Rightarrow> u32 \<Rightarrow> u32 \<Rightarrow> u32 \<times> u32" where
  "evaluate_loop index [] drops keepMask = (drops, keepMask)"
| "evaluate_loop index (name # names) drops keepMask =
    (if deniedTool name then evaluate_loop (Suc index) names (drops + 1) keepMask
     else evaluate_loop (Suc index) names drops (keepMask OR push_bit index 1))"

definition evaluate :: "policyRequest \<Rightarrow> u32 \<times> u32 \<times> bytes" where
  "evaluate request =
    (let count = length (toolNames request);
         keepMask = (if count > 0 then push_bit count 1 - 1 else 0)
     in if \<not> active request \<or> count = 0 then (keepMask, 0, stopReason request)
        else
          (let (drops, keepMask) = evaluate_loop 0 (toolNames request) 0 0;
               kept = int count - int (unat drops);
               finalReason = stopReason request;
               finalReason =
                 (if finalReason = [] \<or> kept = 0
                  then (if kept > 0 then ascii ''tool_use'' else ascii ''end_turn'')
                  else finalReason)
           in (keepMask, drops, finalReason)))"

section \<open>Handler\<close>

definition Handle :: ModuleHandler where
  "Handle invocation flags now request =
    (let decoded = decodeRequest request in
     if InvStageID invocation \<noteq> StageEvaluate \<or> decoded = None
     then ([], ModuleStatusInvalidRequest)
     else if Cancelled invocation flags now then ([], ModuleStatusCancelled)
     else
       (let (keepMask, drops, finalReason) = evaluate (the decoded);
            response = replicate responseLen 0;
            response = put_u32 0 responseMagic response;
            response = put_u32 4 wireVersion response;
            response = put_u32 8 keepMask response;
            response = put_u32 12 drops response;
            response = put_u32 16 (of_nat (length finalReason)) response;
            response = blit response responseStopReasonOff finalReason
        in (response, ModuleStatusOK)))"

section \<open>The request layout\<close>

definition pad_slot :: "bytes \<Rightarrow> bytes" where
  "pad_slot s = s @ replicate (32 - length s) 0"

text \<open>All sixteen rows of a request: its names, then empty ones.\<close>

definition rows :: "policyRequest \<Rightarrow> bytes list" where
  "rows p = toolNames p @ replicate (16 - length (toolNames p)) []"

definition request_bytes :: "policyRequest \<Rightarrow> bytes" where
  "request_bytes p =
     le32 requestMagic @ le32 wireVersion @ le32 (if active p then 1 else 0) @
     le32 (of_nat (length (toolNames p))) @ le32 (of_nat (length (stopReason p))) @ le32 0 @
     concat (map (\<lambda>s. le32 (of_nat (length s))) (rows p)) @
     concat (map pad_slot (rows p)) @ pad_slot (stopReason p)"

definition text_ok :: "bytes \<Rightarrow> bool" where
  "text_ok s \<longleftrightarrow> length s \<le> 31 \<and> 0 \<notin> set s"

definition policy_ok :: "policyRequest \<Rightarrow> bool" where
  "policy_ok p \<longleftrightarrow> length (toolNames p) \<le> 16 \<and> (\<forall>s \<in> set (toolNames p). text_ok s) \<and>
     text_ok (stopReason p)"

lemma zeroPadding_iff: "zeroPadding bs \<longleftrightarrow> bs = replicate (length bs) 0"
  by (induction bs) auto

lemma nonzeroText_iff: "nonzeroText bs \<longleftrightarrow> 0 \<notin> set bs"
  by (induction bs) auto

lemma length_pad_slot [simp]: "length s \<le> 32 \<Longrightarrow> length (pad_slot s) = 32"
  by (simp add: pad_slot_def)

text \<open>A slot passes the decoder's text checks exactly when it is the padding of its text.\<close>

lemma slot_checks_iff:
  assumes "length slot = 32" and "n \<le> 31"
  shows "nonzeroText (take n slot) \<and> zeroPadding (drop n slot) \<longleftrightarrow>
    text_ok (take n slot) \<and> slot = pad_slot (take n slot)"
proof -
  have "drop n slot = replicate (32 - n) 0 \<longleftrightarrow> slot = take n slot @ replicate (32 - n) 0"
    by (metis append_eq_conv_conj append_take_drop_id same_append_eq)
  with assms show ?thesis
    by (simp add: zeroPadding_iff nonzeroText_iff text_ok_def pad_slot_def min_def)
qed

lemma take_pad_slot [simp]: "take (length s) (pad_slot s) = s"
  by (simp add: pad_slot_def)

section \<open>The slot loop as a whole\<close>

definition name_at :: "bytes \<Rightarrow> nat \<Rightarrow> bytes" where
  "name_at request i = take (unat (get_u32 request (24 + i * 4))) (sub request (88 + i * 32) 32)"

definition slot_ok :: "bytes \<Rightarrow> nat \<Rightarrow> nat \<Rightarrow> bool" where
  "slot_ok request count i \<longleftrightarrow>
     unat (get_u32 request (24 + i * 4)) \<le> 31 \<and>
     (count \<le> i \<longrightarrow> get_u32 request (24 + i * 4) = 0) \<and>
     text_ok (name_at request i) \<and>
     sub request (88 + i * 32) 32 = pad_slot (name_at request i)"

lemma decode_slots_eq:
  assumes "length request = 632" and "\<forall>i \<in> set is. i < 16"
  shows "decode_slots request count is names =
    (if \<forall>i \<in> set is. slot_ok request count i
     then Some (fold (\<lambda>i ns. if i < count then ns[i := name_at request i] else ns) is names)
     else None)"
  using assms(2)
proof (induction "is" arbitrary: names)
  case Nil
  then show ?case by simp
next
  case (Cons i "is")
  let ?n = "unat (get_u32 request (24 + i * 4))" and ?slot = "sub request (88 + i * 32) 32"
  have len: "length ?slot = 32"
    using Cons.prems assms(1) by simp
  have "slot_ok request count i \<longleftrightarrow>
    \<not> (?n > 31 \<or> i \<ge> count \<and> ?n \<noteq> 0 \<or> \<not> nonzeroText (take ?n ?slot) \<or> \<not> zeroPadding (drop ?n ?slot))"
    using slot_checks_iff [OF len, of ?n]
    by (cases "?n \<le> 31") (auto simp: slot_ok_def name_at_def unat_eq_zero)
  with Cons show ?case
    by (simp add: Let_def name_at_def)
qed

lemma fold_names:
  "fold (\<lambda>i ns. if i < count then ns[i := g i] else ns) [0..<n] (replicate count []) =
   map (\<lambda>i. if i < n then g i else []) [0..<count]"
proof (induction n)
  case 0
  then show ?case by (simp add: map_replicate_const)
next
  case (Suc n)
  then show ?case
    by (auto intro!: nth_equalityI simp: nth_list_update)
qed

lemma decode_slots_all:
  "length request = 632 \<Longrightarrow> count \<le> 16 \<Longrightarrow>
   decode_slots request count [0..<16] (replicate count []) =
     (if \<forall>i < 16. slot_ok request count i then Some (map (name_at request) [0..<count]) else None)"
  by (subst decode_slots_eq) (auto simp: fold_names)

section \<open>The decoder accepts exactly the layout\<close>

lemma length_rows [simp]: "policy_ok p \<Longrightarrow> length (rows p) = 16"
  by (simp add: rows_def policy_ok_def)

lemma rows_text_ok: "policy_ok p \<Longrightarrow> s \<in> set (rows p) \<Longrightarrow> text_ok s"
  by (auto simp: rows_def policy_ok_def text_ok_def)

lemma rows_length: "policy_ok p \<Longrightarrow> s \<in> set (rows p) \<Longrightarrow> length s \<le> 32"
  using rows_text_ok by (fastforce simp: text_ok_def)

lemma nth_rows:
  "policy_ok p \<Longrightarrow> i < 16 \<Longrightarrow> rows p ! i = (if i < length (toolNames p) then toolNames p ! i else [])"
  by (simp add: rows_def nth_append policy_ok_def)

lemma length_tables [simp]:
  assumes "policy_ok p"
  shows "length (concat (map (\<lambda>s. le32 (of_nat (length s))) (rows p))) = 64"
    and "length (concat (map pad_slot (rows p))) = 512"
    and "length (pad_slot (stopReason p)) = 32"
proof -
  show "length (concat (map (\<lambda>s. le32 (of_nat (length s))) (rows p))) = 64"
    by (subst length_concat_const [where k = 4]) (use assms in simp_all)
  show "length (concat (map pad_slot (rows p))) = 512"
    by (subst length_concat_const [where k = 32])
      (use assms rows_length in auto)
  show "length (pad_slot (stopReason p)) = 32"
    using assms by (simp add: policy_ok_def text_ok_def)
qed

lemma length_request_bytes [simp]: "policy_ok p \<Longrightarrow> length (request_bytes p) = 632"
  by (simp add: request_bytes_def)

lemma request_header:
  "get_u32 (request_bytes p) 0 = requestMagic" "get_u32 (request_bytes p) 4 = wireVersion"
  "get_u32 (request_bytes p) 8 = (if active p then 1 else 0)"
  "get_u32 (request_bytes p) 12 = of_nat (length (toolNames p))"
  "get_u32 (request_bytes p) 16 = of_nat (length (stopReason p))"
  "get_u32 (request_bytes p) 20 = 0"
  by (simp_all add: request_bytes_def layout del: append_assoc add: append_assoc)

lemma request_row:
  assumes "policy_ok p" and "i < 16"
  shows "get_u32 (request_bytes p) (24 + i * 4) = of_nat (length (rows p ! i))"
    and "sub (request_bytes p) (88 + i * 32) 32 = pad_slot (rows p ! i)"
proof -
  let ?lens = "map (\<lambda>s. le32 (of_nat (length s))) (rows p)" and ?slots = "map pad_slot (rows p)"
  have "sub (concat ?lens @ ys) (i * 4) 4 = ?lens ! i" for ys
    using assms by (intro sub_concat) auto
  then have "sub (request_bytes p) (24 + i * 4) 4 = le32 (of_nat (length (rows p ! i)))"
    using assms by (simp add: request_bytes_def)
  then show "get_u32 (request_bytes p) (24 + i * 4) = of_nat (length (rows p ! i))"
    by (rule get_of_sub)
  have "sub (concat ?slots @ ys) (i * 32) 32 = ?slots ! i" for ys
    using assms rows_length by (intro sub_concat) auto
  then show "sub (request_bytes p) (88 + i * 32) 32 = pad_slot (rows p ! i)"
    using assms by (simp add: request_bytes_def)
qed

lemma drop_request: "policy_ok p \<Longrightarrow> drop 600 (request_bytes p) = pad_slot (stopReason p)"
  by (simp add: request_bytes_def)

lemma request_slot_ok:
  assumes "policy_ok p" and "i < 16"
  shows "slot_ok (request_bytes p) (length (toolNames p)) i"
    and "name_at (request_bytes p) i = rows p ! i"
proof -
  have ok: "text_ok (rows p ! i)"
    using assms rows_text_ok by simp
  then have len: "unat (of_nat (length (rows p ! i)) :: u32) = length (rows p ! i)"
    by (simp add: text_ok_def unat_of_nat)
  with assms show name: "name_at (request_bytes p) i = rows p ! i"
    by (simp add: name_at_def request_row)
  with assms ok len show "slot_ok (request_bytes p) (length (toolNames p)) i"
    by (auto simp: slot_ok_def request_row text_ok_def nth_rows)
qed

lemma decode_request_bytes:
  assumes "policy_ok p"
  shows "decodeRequest (request_bytes p) = Some p"
proof -
  have count: "length (toolNames p) \<le> 16" and reason: "text_ok (stopReason p)"
    using assms by (simp_all add: policy_ok_def)
  then have unats: "unat (of_nat (length (toolNames p)) :: u32) = length (toolNames p)"
    "unat (of_nat (length (stopReason p)) :: u32) = length (stopReason p)"
    by (simp_all add: text_ok_def unat_of_nat)
  have names: "map (name_at (request_bytes p)) [0..<length (toolNames p)] = toolNames p"
    using assms count by (auto intro!: nth_equalityI simp: request_slot_ok nth_rows)
  have texts: "nonzeroText (stopReason p)"
    "zeroPadding (drop (length (stopReason p)) (pad_slot (stopReason p)))"
    using reason by (simp_all add: nonzeroText_iff text_ok_def zeroPadding_iff pad_slot_def)
  have "decodeRequest (request_bytes p) =
    Some \<lparr>active = active p, toolNames = toolNames p, stopReason = stopReason p\<rparr>"
    using assms count reason request_slot_ok(1) [OF assms] texts
    by (simp add: decodeRequest_def request_header unats Let_def decode_slots_all names
        drop_request word_less_nat_alt text_ok_def del: drop_drop)
  then show ?thesis by simp
qed

lemma decode_request_Some:
  assumes dec: "decodeRequest request = Some p"
  shows "policy_ok p" and "request = request_bytes p"
proof -
  let ?count = "unat (get_u32 request 12)" and ?rlen = "unat (get_u32 request 16)"
  from dec have len: "length request = 632" and hdr: "get_u32 request 0 = requestMagic"
      "get_u32 request 4 = wireVersion" "get_u32 request 20 = 0"
    and act: "get_u32 request 8 \<le> 1" and count: "?count \<le> 16" and rlen: "?rlen \<le> 31"
    by (auto simp: decodeRequest_def word_less_nat_alt word_le_nat_alt split: if_splits)
  let ?reason = "take ?rlen (drop 600 request)"
  from dec len count have slots: "\<forall>i < 16. slot_ok request ?count i"
    and p: "p = \<lparr>active = (get_u32 request 8 = 1),
       toolNames = map (name_at request) [0..<?count], stopReason = ?reason\<rparr>"
    and reason: "nonzeroText ?reason" "zeroPadding (drop ?rlen (drop 600 request))"
    by (auto simp: decodeRequest_def Let_def decode_slots_all split: if_splits)
  have rslot: "text_ok ?reason" "drop 600 request = pad_slot ?reason"
    using slot_checks_iff [of "drop 600 request" ?rlen] reason len rlen by simp_all
  from slots count show ok: "policy_ok p"
    by (auto simp: policy_ok_def p rslot(1) slot_ok_def)
  have beyond: "name_at request i = []" if "?count \<le> i" "i < 16" for i
    using slots that by (simp add: slot_ok_def name_at_def)
  have rows: "rows p = map (name_at request) [0..<16]"
    by (rule nth_equalityI) (use ok count beyond in \<open>auto simp: nth_rows p\<close>)
  have row_len: "of_nat (length (name_at request i)) = get_u32 request (24 + i * 4)" if "i < 16" for i
  proof -
    have "unat (get_u32 request (24 + i * 4)) \<le> 31"
      using slots that by (simp add: slot_ok_def)
    then show ?thesis using that len by (simp add: name_at_def min_def)
  qed
  have "map (\<lambda>s. le32 (of_nat (length s))) (rows p) = map (\<lambda>i. sub request (24 + i * 4) 4) [0..<16]"
    using len by (simp add: rows row_len le_get)
  then have lens: "concat (map (\<lambda>s. le32 (of_nat (length s))) (rows p)) = sub request 24 64"
    using concat_subs [of 24 16 4 request] len by simp
  have "map pad_slot (rows p) = map (\<lambda>i. sub request (88 + i * 32) 32) [0..<16]"
    using slots by (simp add: rows slot_ok_def)
  then have names: "concat (map pad_slot (rows p)) = sub request 88 512"
    using concat_subs [of 88 16 32 request] len by simp
  have active: "(if active p then 1 else 0) = get_u32 request 8"
    using act by (auto simp: p word_le_nat_alt le_Suc_eq unat_eq_zero)
      (metis One_nat_def unat_1 word_unat_eq_iff)
  have reason_len: "of_nat (length (stopReason p)) = get_u32 request 16"
    using len rlen by (simp add: p)
  have fixed: "le32 requestMagic = sub request 0 4" "le32 wireVersion = sub request 4 4"
    "le32 0 = sub request 20 4"
    using len hdr le_get(2) [of 0 request] le_get(2) [of 4 request] le_get(2) [of 20 request]
    by simp_all
  have "request_bytes p = sub request 0 4 @ sub request 4 4 @ sub request 8 4 @ sub request 12 4 @
      sub request 16 4 @ sub request 20 4 @ sub request 24 64 @ sub request 88 512 @ sub request 600 32"
    unfolding request_bytes_def lens names active reason_len fixed
    using len rslot(2) by (simp add: le_get p sub_def [of request 600] del: sub_0)
  also have "\<dots> = sub request 0 632"
    using sub_split [of request 0 4 628] sub_split [of request 4 4 624] sub_split [of request 8 4 620]
      sub_split [of request 12 4 616] sub_split [of request 16 4 612] sub_split [of request 20 4 608]
      sub_split [of request 24 64 544] sub_split [of request 88 512 32]
    by (simp del: sub_0)
  finally show "request = request_bytes p" using len by simp
qed

interpretation govq: fixed_codec requestLen policy_ok "\<lambda>_ n. n = 0" request_bytes decodeRequest
proof unfold_locales
  fix p bs rest
  show "length (request_bytes p) = requestLen" if "policy_ok p"
    using that by simp
  show "decodeRequest (request_bytes p @ rest) = Some p" if "policy_ok p" "length rest = 0"
    using that by (simp add: decode_request_bytes)
  assume dec: "decodeRequest bs = Some p"
  show "policy_ok p" by (rule decode_request_Some(1) [OF dec])
  then have "length bs = 632"
    using decode_request_Some(2) [OF dec] by simp
  then show "requestLen \<le> length bs" "length bs - requestLen = 0"
    "request_bytes p = take requestLen bs"
    using decode_request_Some(2) [OF dec] by simp_all
qed

section \<open>The policy\<close>

lemma evaluate_loop_eq:
  "index + length names \<le> 32 \<Longrightarrow> evaluate_loop index names drops keepMask = (d, m) \<Longrightarrow>
   d = drops + of_nat (length (filter deniedTool names)) \<and>
   (\<forall>j. bit m j \<longleftrightarrow> bit keepMask j \<or>
     (index \<le> j \<and> j < index + length names \<and> \<not> deniedTool (names ! (j - index))))"
proof (induction index names drops keepMask rule: evaluate_loop.induct)
  case (1 index drops keepMask)
  then show ?case by auto
next
  case (2 index name names drops keepMask)
  have shift: "(index \<le> j \<and> j < index + length (name # names) \<and> \<not> deniedTool ((name # names) ! (j - index)))
    \<longleftrightarrow> (j = index \<and> \<not> deniedTool name) \<or>
        (Suc index \<le> j \<and> j < Suc index + length names \<and> \<not> deniedTool (names ! (j - Suc index)))" for j
    by (cases "j = index") (auto simp: Suc_diff_Suc [symmetric] not_less_eq_eq)
  show ?case
  proof (cases "deniedTool name")
    case True
    with 2 shift show ?thesis by simp
  next
    case False
    have "bit (keepMask OR push_bit index 1) j \<longleftrightarrow> bit keepMask j \<or> j = index" for j
      using "2.prems"(1) by (auto simp: bit_or_iff bit_exp_iff)
    with False 2 shift show ?thesis by auto
  qed
qed

definition final_reason :: "policyRequest \<Rightarrow> bytes" where
  "final_reason p =
    (if \<not> active p \<or> toolNames p = [] then stopReason p
     else if \<forall>n \<in> set (toolNames p). deniedTool n then ascii ''end_turn''
     else if stopReason p = [] then ascii ''tool_use''
     else stopReason p)"

definition denied_calls :: "policyRequest \<Rightarrow> bytes list" where
  "denied_calls p = (if active p then filter deniedTool (toolNames p) else [])"

definition surviving_calls :: "policyRequest \<Rightarrow> bytes list" where
  "surviving_calls p = (if active p then filter (\<lambda>n. \<not> deniedTool n) (toolNames p) else toolNames p)"

lemma unat_count: "length xs \<le> 32 \<Longrightarrow> unat (of_nat (length (filter P xs)) :: u32) = length (filter P xs)"
proof -
  assume "length xs \<le> 32"
  then have "length (filter P xs) < 4294967296"
    using length_filter_le [of P xs] by linarith
  then show ?thesis by (simp add: unat_of_nat)
qed

lemma bit_keep_all: "n \<le> 32 \<Longrightarrow> bit (2 ^ n - 1 :: u32) j \<longleftrightarrow> j < n"
  by (auto simp: mask_eq_exp_minus_1 [symmetric] bit_mask_iff)

lemma evaluate_eq:
  assumes len: "length (toolNames p) \<le> 32" and ev: "evaluate p = (m, d, r)"
  shows "bit m j \<longleftrightarrow> j < length (toolNames p) \<and> (active p \<longrightarrow> \<not> deniedTool (toolNames p ! j))"
    and "unat d = length (denied_calls p)"
    and "r = final_reason p"
proof -
  let ?names = "toolNames p"
  have "(bit m j \<longleftrightarrow> j < length ?names \<and> (active p \<longrightarrow> \<not> deniedTool (?names ! j))) \<and>
    unat d = length (denied_calls p) \<and> r = final_reason p"
  proof (cases "\<not> active p \<or> ?names = []")
    case True
    with ev have "m = (if length ?names > 0 then push_bit (length ?names) 1 - 1 else 0)"
      "d = 0" "r = stopReason p"
      by (auto simp: evaluate_def Let_def)
    with True len show ?thesis
      by (auto simp: bit_keep_all denied_calls_def final_reason_def)
  next
    case False
    obtain d' m' where loop: "evaluate_loop 0 ?names 0 0 = (d', m')"
      by (cases "evaluate_loop 0 ?names 0 0")
    from evaluate_loop_eq [OF _ loop] len have d': "d' = of_nat (length (filter deniedTool ?names))"
      and m': "bit m' j \<longleftrightarrow> j < length ?names \<and> \<not> deniedTool (?names ! j)"
      by simp_all
    have u: "unat d' = length (filter deniedTool ?names)"
      using len by (simp add: d' unat_count)
    have ui: "uint d' = int (length (filter deniedTool ?names))"
      by (simp only: u uint_nat)
    have all: "length (filter deniedTool ?names) = length ?names \<longleftrightarrow> (\<forall>n \<in> set ?names. deniedTool n)"
      by (metis filter_True length_filter_less less_irrefl)
    have less: "length (filter deniedTool ?names) < length ?names \<longleftrightarrow> \<not> (\<forall>n \<in> set ?names. deniedTool n)"
      using all length_filter_le [of deniedTool ?names] by linarith
    have "m = m' \<and> d = d' \<and> r = final_reason p"
      using ev False loop u ui all less
      by (auto simp: evaluate_def Let_def final_reason_def)
    with False m' u show ?thesis by (simp add: denied_calls_def)
  qed
  then show "bit m j \<longleftrightarrow> j < length ?names \<and> (active p \<longrightarrow> \<not> deniedTool (?names ! j))"
    and "unat d = length (denied_calls p)" and "r = final_reason p"
    by blast+
qed

lemma evaluate_survivors:
  assumes "length (toolNames p) \<le> 32" and "evaluate p = (m, d, r)"
  shows "nths (toolNames p) {j. bit m j} = surviving_calls p"
proof -
  have "{j. bit m j} =
    {j. j < length (toolNames p) \<and> (active p \<longrightarrow> \<not> deniedTool (toolNames p ! j))}"
    using evaluate_eq(1) [OF assms] by blast
  moreover have "surviving_calls p = filter (\<lambda>n. active p \<longrightarrow> \<not> deniedTool n) (toolNames p)"
    by (auto simp: surviving_calls_def)
  ultimately show ?thesis
    by (simp only: filter_eq_nths)
qed

lemma final_reason_ok: "policy_ok p \<Longrightarrow> text_ok (final_reason p)"
  by (auto simp: final_reason_def policy_ok_def text_ok_def ascii_def)

section \<open>The response\<close>

definition response_bytes :: "u32 \<Rightarrow> u32 \<Rightarrow> bytes \<Rightarrow> bytes" where
  "response_bytes keepMask drops reason =
     le32 responseMagic @ le32 wireVersion @ le32 keepMask @ le32 drops @
     le32 (of_nat (length reason)) @ le32 0 @ pad_slot reason"

lemma le32_0: "le32 0 = [0, 0, 0, 0]"
  by code_simp

lemma Handle_request_bytes:
  assumes "policy_ok p"
  shows "Handle call fl now (request_bytes p) =
    (if InvStageID call \<noteq> StageEvaluate then ([], ModuleStatusInvalidRequest)
     else if Cancelled call fl now then ([], ModuleStatusCancelled)
     else (case evaluate p of (m, d, r) \<Rightarrow> (response_bytes m d r, ModuleStatusOK)))"
proof -
  obtain m d r where ev: "evaluate p = (m, d, r)" by (cases "evaluate p") auto
  have "length (toolNames p) \<le> 32" using assms by (simp add: policy_ok_def)
  then have "r = final_reason p" using ev by (rule evaluate_eq(3))
  with assms have r: "length r \<le> 31" using final_reason_ok by (simp add: text_ok_def)
  have "blit (replicate 36 0) 4 r = le32 0 @ pad_slot r"
    using r by (simp add: blit_def pad_slot_def le32_0 flip: replicate_add) (simp add: eval_nat_numeral)
  moreover have "blit (put_u32 16 b (put_u32 12 d (put_u32 8 m (put_u32 4 w (put_u32 0 a (replicate 56 0)))))) 24 r =
      le32 a @ le32 w @ le32 m @ le32 d @ le32 b @ blit (replicate 36 0) 4 r" for a w b
    by (simp add: put_skip put_head blit_skip)
  ultimately show ?thesis
    using assms by (simp add: Handle_def decode_request_bytes ev response_bytes_def Let_def)
qed

lemma Handle_malformed:
  "\<not> (\<exists>p. policy_ok p \<and> req = request_bytes p) \<Longrightarrow> Handle call fl now req = ([], ModuleStatusInvalidRequest)"
proof -
  assume "\<not> (\<exists>p. policy_ok p \<and> req = request_bytes p)"
  then have "decodeRequest req = None"
    by (metis decode_request_Some option.exhaust)
  then show ?thesis by (simp add: Handle_def)
qed

lemma Handle_cases:
  obtains (malformed) "\<not> (\<exists>p. policy_ok p \<and> req = request_bytes p)"
      "Handle call fl now req = ([], ModuleStatusInvalidRequest)"
  | (wrong_stage) p where "policy_ok p" "req = request_bytes p" "InvStageID call \<noteq> StageEvaluate"
      "Handle call fl now req = ([], ModuleStatusInvalidRequest)"
  | (cancelled) p where "policy_ok p" "req = request_bytes p" "InvStageID call = StageEvaluate"
      "Cancelled call fl now" "Handle call fl now req = ([], ModuleStatusCancelled)"
  | (decided) p m d r where "policy_ok p" "req = request_bytes p" "InvStageID call = StageEvaluate"
      "\<not> Cancelled call fl now" "evaluate p = (m, d, r)"
      "Handle call fl now req = (response_bytes m d r, ModuleStatusOK)"
proof (cases "\<exists>p. policy_ok p \<and> req = request_bytes p")
  case False
  then show ?thesis by (intro malformed Handle_malformed)
next
  case True
  then obtain p where p: "policy_ok p" "req = request_bytes p" by blast
  obtain m d r where ev: "evaluate p = (m, d, r)" by (cases "evaluate p") auto
  have spec: "Handle call fl now req =
    (if InvStageID call \<noteq> StageEvaluate then ([], ModuleStatusInvalidRequest)
     else if Cancelled call fl now then ([], ModuleStatusCancelled)
     else (response_bytes m d r, ModuleStatusOK))"
    using p ev by (simp add: Handle_request_bytes)
  show ?thesis
  proof (cases "InvStageID call = StageEvaluate")
    case False
    with p spec show ?thesis by (intro wrong_stage) simp_all
  next
    case stage: True
    show ?thesis
    proof (cases "Cancelled call fl now")
      case True
      with p spec stage show ?thesis by (intro cancelled) simp_all
    next
      case False
      with p spec stage ev show ?thesis by (intro decided) simp_all
    qed
  qed
qed

lemma length_response_bytes: "length r \<le> 32 \<Longrightarrow> length (response_bytes m d r) = 56"
  by (simp add: response_bytes_def)

interpretation governance: stage_handler Handle
proof unfold_locales
  fix i fl now req body st
  assume "Handle i fl now req = (body, st)"
  then have "(body = [] \<and> (st = ModuleStatusInvalidRequest \<or> st = ModuleStatusCancelled)) \<or>
    (length body = 56 \<and> st = ModuleStatusOK \<and> \<not> Cancelled i fl now)"
  proof (cases rule: Handle_cases [of req i fl now])
    case (decided p m d r)
    with evaluate_eq(3) [of p m d r] final_reason_ok [of p] \<open>Handle i fl now req = (body, st)\<close>
    show ?thesis by (auto simp: length_response_bytes text_ok_def policy_ok_def)
  qed auto
  then show "validModuleStatus st" "length body \<le> unat ModuleMessageMaxBody"
    and "st \<noteq> ModuleStatusOK \<Longrightarrow> body = []" and "Cancelled i fl now \<Longrightarrow> st \<noteq> ModuleStatusOK"
    by (auto simp: validModuleStatus_def)
qed

section \<open>Properties\<close>

text \<open>A request as the tests of the source have it: one denied call, one kept, no stop reason.\<close>

definition sample_policy :: policyRequest where
  "sample_policy = \<lparr>active = True, toolNames = [ascii ''Agent'', ascii ''bash''], stopReason = []\<rparr>"

definition sample_call :: ModuleInvocation where
  "sample_call = \<lparr>InvStageID = 1, InvDeadlineNS = 900, InvTraceID = 5, InvCancelled = Some 3\<rparr>"

lemma sample_policy_ok: "policy_ok sample_policy"
  by (simp add: policy_ok_def sample_policy_def text_ok_def ascii_def)

lemma sample_policy_facts:
  "surviving_calls sample_policy = [ascii ''bash'']"
  "denied_calls sample_policy = [ascii ''Agent'']"
  "final_reason sample_policy = ascii ''tool_use''"
  by (simp_all add: sample_policy_def surviving_calls_def denied_calls_def final_reason_def
      deniedTool_def ascii_def)

lemma sample_call_runs: "InvStageID sample_call = StageEvaluate" "\<not> Cancelled sample_call (\<lambda>_. False) 10"
  by (simp_all add: sample_call_def Cancelled_def)

lemma response_fields:
  assumes "text_ok r"
  shows "get_u32 (response_bytes m d r) 0 = responseMagic"
    and "get_u32 (response_bytes m d r) 4 = wireVersion"
    and "get_u32 (response_bytes m d r) 8 = m"
    and "get_u32 (response_bytes m d r) 12 = d"
    and "unat (get_u32 (response_bytes m d r) 16) = length r"
    and "get_u32 (response_bytes m d r) 20 = 0"
    and "drop 24 (response_bytes m d r) = pad_slot r"
  using assms by (simp_all add: response_bytes_def layout text_ok_def unat_of_nat)

lemma Handle_policy_response:
  assumes "policy_ok p" and "InvStageID call = StageEvaluate" and "\<not> Cancelled call fl now"
  shows "\<exists>resp. Handle call fl now (request_bytes p) = (resp, ModuleStatusOK) \<and>
    length resp = responseLen \<and> get_u32 resp 0 = responseMagic \<and> get_u32 resp 4 = wireVersion \<and>
    nths (toolNames p) {j. bit (get_u32 resp 8) j} = surviving_calls p \<and>
    unat (get_u32 resp 12) = length (denied_calls p) \<and>
    unat (get_u32 resp 16) = length (final_reason p) \<and> get_u32 resp 20 = 0 \<and>
    drop responseStopReasonOff resp =
      final_reason p @ replicate (32 - length (final_reason p)) 0"
proof -
  obtain m d r where ev: "evaluate p = (m, d, r)" by (cases "evaluate p") auto
  have len: "length (toolNames p) \<le> 32" using assms(1) by (simp add: policy_ok_def)
  have r: "r = final_reason p" by (rule evaluate_eq(3) [OF len ev])
  have ok: "text_ok (final_reason p)" using assms(1) by (rule final_reason_ok)
  then have len56: "length (response_bytes m d r) = 56"
    by (simp add: r length_response_bytes text_ok_def)
  have "Handle call fl now (request_bytes p) = (response_bytes m d r, ModuleStatusOK)"
    using assms ev by (simp add: Handle_request_bytes)
  then show ?thesis
    using len56 response_fields [OF ok, of m d] evaluate_survivors [OF len ev]
      evaluate_eq(2) [OF len ev]
    by (simp add: r pad_slot_def)
qed

text \<open>
  C1. The stage enforces the policy end to end on the wire: for every well-formed request that
  is neither for another stage nor cancelled, the answer is OK with a 56-byte response whose
  keep mask selects exactly the calls that survive (all of them when the policy is inactive,
  otherwise those whose name is not denied, in their order), whose drop count is the number
  of denied calls, and whose text is the final stop reason, zero-padded.
\<close>

theorem Handle_enforces_policy:
  assumes "policy_ok p" and "InvStageID call = StageEvaluate" and "\<not> Cancelled call fl now"
  shows "\<exists>resp. Handle call fl now (request_bytes p) = (resp, ModuleStatusOK) \<and>
    length resp = responseLen \<and> get_u32 resp 0 = responseMagic \<and> get_u32 resp 4 = wireVersion \<and>
    nths (toolNames p) {j. bit (get_u32 resp 8) j} = surviving_calls p \<and>
    unat (get_u32 resp 12) = length (denied_calls p) \<and>
    unat (get_u32 resp 16) = length (final_reason p) \<and> get_u32 resp 20 = 0 \<and>
    drop responseStopReasonOff resp =
      final_reason p @ replicate (32 - length (final_reason p)) 0"
  by (rule Handle_policy_response [OF assms])

theorem Handle_enforces_policy_witness:
  "\<exists>resp. Handle sample_call (\<lambda>_. False) 10 (request_bytes sample_policy) = (resp, ModuleStatusOK) \<and>
    nths (toolNames sample_policy) {j. bit (get_u32 resp 8) j} = [ascii ''bash''] \<and>
    unat (get_u32 resp 12) = 1"
  using Handle_enforces_policy [OF sample_policy_ok sample_call_runs]
  by (auto simp: sample_policy_facts)

text \<open>
  C2. The handler's answer on every branch: a request for another stage or one that is not the
  encoding of a well-formed policy request is an invalid request, even when the invocation
  is cancelled too; a well-formed one is answered as cancelled if its flag is set or its
  deadline has passed, and with OK otherwise; and exactly the answers that are not OK are
  empty.
\<close>

theorem Handle_status:
  "snd (Handle call fl now req) =
     (if InvStageID call = StageEvaluate \<and> (\<exists>p. policy_ok p \<and> req = request_bytes p)
      then (if Cancelled call fl now then ModuleStatusCancelled else ModuleStatusOK)
      else ModuleStatusInvalidRequest) \<and>
   (fst (Handle call fl now req) = [] \<longleftrightarrow> snd (Handle call fl now req) \<noteq> ModuleStatusOK)"
proof (cases rule: Handle_cases [of req call fl now])
  case (decided p m d r)
  then have "response_bytes m d r \<noteq> []" by (simp add: response_bytes_def flip: length_0_conv)
  with decided show ?thesis by auto
qed auto

text \<open>
  C3. The decoder accepts exactly the wire images of well-formed requests: it returns a request
  if and only if that request has at most 16 names, all texts at most 31 bytes and free of
  zero bytes, and the input is byte for byte its encoding (fixed length, reserved word and
  all padding zero, unused rows empty). In particular decoding is injective.
\<close>

theorem decodeRequest_iff:
  "decodeRequest req = Some p \<longleftrightarrow> policy_ok p \<and> req = request_bytes p"
  using govq.dec_iff [of req p] by auto

text \<open>
  C4. The policy evaluation is exact for up to 32 calls: a mask bit is set if and only if it
  belongs to a call of the request that is not denied by an active policy, so the mask picks
  the surviving calls in order; kept and dropped calls add up to the calls of the request; the
  reason is the request's own unless an active policy dropped everything (end_turn) or the
  reason was empty (tool_use).
\<close>

theorem evaluate_policy:
  assumes "length (toolNames p) \<le> 32" and "evaluate p = (m, d, r)"
  shows "(\<forall>j. bit m j \<longleftrightarrow> j < length (toolNames p) \<and> (active p \<longrightarrow> \<not> deniedTool (toolNames p ! j))) \<and>
    nths (toolNames p) {j. bit m j} = surviving_calls p \<and>
    card {j. bit m j} + unat d = length (toolNames p) \<and>
    unat d = length (denied_calls p) \<and> r = final_reason p"
proof -
  have "{j. bit m j} = {j. j < length (toolNames p) \<and> (active p \<longrightarrow> \<not> deniedTool (toolNames p ! j))}"
    using evaluate_eq(1) [OF assms] by blast
  then have "card {j. bit m j} = length (surviving_calls p)"
    using evaluate_survivors [OF assms] length_nths [of "toolNames p" "{j. bit m j}"]
    by (metis (mono_tags, lifting) Collect_cong mem_Collect_eq)
  moreover have "length (surviving_calls p) + length (denied_calls p) = length (toolNames p)"
    using sum_length_filter_compl [of deniedTool "toolNames p"]
    by (simp add: surviving_calls_def denied_calls_def)
  ultimately show ?thesis
    using evaluate_eq [OF assms] evaluate_survivors [OF assms] by simp
qed

theorem evaluate_policy_witness:
  "evaluate sample_policy = (2, 1, ascii ''tool_use'') \<and>
   nths (toolNames sample_policy) {j. bit (2 :: u32) j} = [ascii ''bash'']"
proof -
  have ev: "evaluate sample_policy = (2, 1, ascii ''tool_use'')"
    by (simp add: evaluate_def sample_policy_def deniedTool_def ascii_def)
  moreover have "length (toolNames sample_policy) \<le> 32"
    by (simp add: sample_policy_def)
  ultimately show ?thesis
    using evaluate_policy [of sample_policy 2 1 "ascii ''tool_use''"]
    unfolding sample_policy_facts(1) by blast
qed

end
