(* ===== verification/Ring.thy ===== *)
theory Ring
  imports Interfaces
begin

text \<open>
  The single-producer single-consumer ring in shared memory, \<^verbatim>\<open>server-go/bus/ring.go\<close>. A ring
  is a view: the geometry validated at attach time and the offset of the ring in a mapped
  region; head, tail and slots live in the region, which every operation reads and writes.
  Proved here: an attached ring never addresses a byte outside its region; produce and
  consume refine a bounded queue, across the wrap-around of the 64-bit indices; under any
  interleaving of the two sides nothing is lost, reordered or changed while it is read.
\<close>

section \<open>Layout and geometry\<close>

definition ringMagic :: u32 where [simp]: "ringMagic = 0x474e4952"
definition ringOffMagic :: nat where [simp]: "ringOffMagic = 0"
definition ringOffSlot :: nat where [simp]: "ringOffSlot = 4"
definition ringOffCap :: nat where [simp]: "ringOffCap = 8"
definition ringOffMask :: nat where [simp]: "ringOffMask = 12"
definition ringOffSlots :: nat where [simp]: "ringOffSlots = 16"
definition ringOffHead :: nat where [simp]: "ringOffHead = 64"
definition ringOffTail :: nat where [simp]: "ringOffTail = 128"
definition ringHdrBytes :: nat where [simp]: "ringHdrBytes = 192"

text \<open>
  \<open>ring_base\<close> is where the Go slice \<open>mem\<close> of the ring starts in the mapped region; the head
  and tail pointers are at fixed offsets from it.
\<close>

record Ring =
  ring_base :: nat
  slotSize :: u32
  capacity :: u32
  ring_mask :: u32
  slotsOff :: u32

definition head_at :: "Ring \<Rightarrow> nat" where
  "head_at r = ring_base r + ringOffHead"

definition tail_at :: "Ring \<Rightarrow> nat" where
  "tail_at r = ring_base r + ringOffTail"

definition AttachRing :: "bytes \<Rightarrow> nat \<Rightarrow> err + Ring" where
  "AttachRing region base =
    (let mem = drop base region in
     if length mem < ringHdrBytes then Inl ErrRingLayout
     else if get_u32 mem ringOffMagic \<noteq> ringMagic then Inl ErrRingLayout
     else
       (let slot = get_u32 mem ringOffSlot;
            capv = get_u32 mem ringOffCap;
            msk = get_u32 mem ringOffMask;
            slots = get_u32 mem ringOffSlots
        in if capv < 2 \<or> capv AND (capv - 1) \<noteq> 0 \<or> slot = 0 \<or> msk \<noteq> capv - 1 \<or>
              slots \<noteq> of_nat ringHdrBytes then Inl ErrRingLayout
           else if length mem < unat slots + unat slot * unat capv then Inl ErrRingLayout
           else
             (let head = get_u64 mem ringOffHead; tail = get_u64 mem ringOffTail
              in if head - tail > ucast capv then Inl ErrRingLayout
                 else Inr \<lparr>ring_base = base, slotSize = slot, capacity = capv, ring_mask = msk,
                           slotsOff = slots\<rparr>)))"

section \<open>Operations\<close>

definition Capacity :: "Ring \<Rightarrow> u32" where "Capacity r = capacity r"
definition SlotSize :: "Ring \<Rightarrow> u32" where "SlotSize r = slotSize r"

definition Count :: "bytes \<Rightarrow> Ring \<Rightarrow> u64" where
  "Count region r = get_u64 region (head_at r) - get_u64 region (tail_at r)"

text \<open>
  \<open>slot_offset\<close> is the offset, in the region, of the slot for an index. A slot handed out is
  a Go slice of the region; it is out of range, and the slice expression panics, when it does
  not lie in the ring's memory.
\<close>

datatype slot_result = NilSlot | SlotAt nat | SlotPanic

definition slot_offset :: "Ring \<Rightarrow> u64 \<Rightarrow> nat" where
  "slot_offset r index =
     ring_base r + (unat (slotsOff r) + unat (index AND ucast (ring_mask r)) * unat (slotSize r))"

definition ring_slot :: "bytes \<Rightarrow> Ring \<Rightarrow> u64 \<Rightarrow> slot_result" where
  "ring_slot region r index =
    (if slot_offset r index + unat (slotSize r) \<le> length region then SlotAt (slot_offset r index)
     else SlotPanic)"

definition ProduceBegin :: "bytes \<Rightarrow> Ring \<Rightarrow> slot_result" where
  "ProduceBegin region r =
    (let head = get_u64 region (head_at r); tail = get_u64 region (tail_at r)
     in if head - tail \<ge> ucast (capacity r) then NilSlot else ring_slot region r head)"

definition ProduceCommit :: "Ring \<Rightarrow> bytes \<Rightarrow> bytes" where
  "ProduceCommit r region = put_u64 (head_at r) (get_u64 region (head_at r) + 1) region"

definition ConsumeBegin :: "bytes \<Rightarrow> Ring \<Rightarrow> slot_result" where
  "ConsumeBegin region r =
    (let tail = get_u64 region (tail_at r); head = get_u64 region (head_at r)
     in if head = tail then NilSlot else ring_slot region r tail)"

definition ConsumeCommit :: "Ring \<Rightarrow> bytes \<Rightarrow> bytes" where
  "ConsumeCommit r region = put_u64 (tail_at r) (get_u64 region (tail_at r) + 1) region"

definition initRing :: "bytes \<Rightarrow> u32 \<Rightarrow> u32 \<Rightarrow> (err + Ring) \<times> bytes" where
  "initRing mem slot capv =
    (if capv < 2 \<or> capv AND (capv - 1) \<noteq> 0 \<or> slot = 0 then (Inl ErrRingLayout, mem)
     else
       (let need = ringHdrBytes + unat slot * unat capv in
        if length mem < need then (Inl ErrRingLayout, mem)
        else
          (let mem = clear_prefix need mem;
               mem = put_u32 ringOffSlot slot mem;
               mem = put_u32 ringOffCap capv mem;
               mem = put_u32 ringOffMask (capv - 1) mem;
               mem = put_u32 ringOffSlots (of_nat ringHdrBytes) mem;
               mem = put_u64 ringOffHead 0 mem;
               mem = put_u64 ringOffTail 0 mem;
               mem = put_u32 ringOffMagic ringMagic mem
           in (AttachRing mem 0, mem))))"

section \<open>Invariant and abstract content\<close>

definition ring_end :: "Ring \<Rightarrow> nat" where
  "ring_end r = ring_base r + (192 + unat (slotSize r) * unat (capacity r))"

definition geometry_ok :: "Ring \<Rightarrow> bool" where
  "geometry_ok r \<longleftrightarrow>
     (\<exists>k. 1 \<le> k \<and> k < 32 \<and> capacity r = 2 ^ k) \<and> ring_mask r = capacity r - 1 \<and>
     slotsOff r = 192 \<and> slotSize r \<noteq> 0"

definition ring_inv :: "bytes \<Rightarrow> Ring \<Rightarrow> bool" where
  "ring_inv region r \<longleftrightarrow>
     geometry_ok r \<and> ring_end r \<le> length region \<and> unat (Count region r) \<le> unat (capacity r)"

definition slot_bytes :: "bytes \<Rightarrow> Ring \<Rightarrow> u64 \<Rightarrow> bytes" where
  "slot_bytes region r index = sub region (slot_offset r index) (unat (slotSize r))"

definition ring_items :: "bytes \<Rightarrow> Ring \<Rightarrow> bytes list" where
  "ring_items region r =
     map (\<lambda>i. slot_bytes region r (get_u64 region (tail_at r) + of_nat i)) [0..<unat (Count region r)]"

lemma length_ring_items [simp]: "length (ring_items region r) = unat (Count region r)"
  by (simp add: ring_items_def)

lemma ring_items_Nil: "ring_items region r = [] \<longleftrightarrow> Count region r = 0"
  by (simp add: ring_items_def unat_eq_zero)

lemma capacity_unat: "geometry_ok r \<Longrightarrow> \<exists>k. 1 \<le> k \<and> k < 32 \<and> unat (capacity r) = 2 ^ k"
  by (auto simp: geometry_ok_def unat_exp_eq)

lemma capacity_bounds: "geometry_ok r \<Longrightarrow> 2 \<le> unat (capacity r) \<and> unat (capacity r) \<le> 2 ^ 31"
proof -
  assume "geometry_ok r"
  then obtain k where k: "1 \<le> k" "k < 32" "unat (capacity r) = 2 ^ k"
    using capacity_unat by blast
  then have "(2::nat) ^ 1 \<le> 2 ^ k" "(2::nat) ^ k \<le> 2 ^ 31"
    by (intro power_increasing; simp)+
  with k show ?thesis by simp
qed

text \<open>Masking an index is the remainder by the capacity, whatever the index wraps to.\<close>

lemma masked_index:
  fixes index :: u64
  assumes "geometry_ok r"
  shows "unat (index AND ucast (ring_mask r)) = unat index mod unat (capacity r)"
proof -
  from assms obtain k where k: "k < 32" "capacity r = 2 ^ k" "ring_mask r = 2 ^ k - 1"
    by (auto simp: geometry_ok_def)
  then have "(ucast (ring_mask r) :: u64) = mask k"
    by (simp add: mask_eq_exp_minus_1 [symmetric] ucast_mask_eq min_def)
  then have "unat (index AND ucast (ring_mask r)) = unat (take_bit k index)"
    by (simp add: take_bit_eq_mask)
  also have "\<dots> = unat index mod 2 ^ k"
    by (simp only: unsigned_take_bit_eq) (simp only: take_bit_eq_mod)
  finally show ?thesis using k by (simp add: unat_exp_eq)
qed

lemma slot_offset_eq:
  "geometry_ok r \<Longrightarrow>
   slot_offset r index = ring_base r + 192 + (unat index mod unat (capacity r)) * unat (slotSize r)"
  by (simp add: slot_offset_def masked_index) (simp add: geometry_ok_def)

lemma slot_in_range:
  assumes "geometry_ok r"
  shows "ring_base r + 192 \<le> slot_offset r index"
    and "slot_offset r index + unat (slotSize r) \<le> ring_end r"
proof -
  let ?c = "unat (capacity r)" and ?m = "unat index mod unat (capacity r)"
  have "?m < ?c" using capacity_bounds [OF assms] by simp
  then have "(?m + 1) * unat (slotSize r) \<le> ?c * unat (slotSize r)"
    by (intro mult_right_mono) simp_all
  then show "slot_offset r index + unat (slotSize r) \<le> ring_end r"
    by (simp add: slot_offset_eq [OF assms] ring_end_def algebra_simps)
qed (simp add: slot_offset_eq [OF assms])

lemma ring_slot_SlotAt:
  "geometry_ok r \<Longrightarrow> ring_end r \<le> length region \<Longrightarrow>
   ring_slot region r index = SlotAt (slot_offset r index)"
  using slot_in_range(2) [of r index] by (simp add: ring_slot_def)

lemma slots_disjoint:
  assumes "geometry_ok r" and "unat i mod unat (capacity r) \<noteq> unat j mod unat (capacity r)"
  shows "slot_offset r i + unat (slotSize r) \<le> slot_offset r j \<or>
    slot_offset r j + unat (slotSize r) \<le> slot_offset r i"
proof -
  let ?mi = "unat i mod unat (capacity r)" and ?mj = "unat j mod unat (capacity r)"
  have step: "a * unat (slotSize r) + unat (slotSize r) \<le> b * unat (slotSize r)" if "a < b" for a b
    using mult_right_mono [of "Suc a" b "unat (slotSize r)"] that by simp
  have "?mi < ?mj \<or> ?mj < ?mi" using assms(2) by linarith
  then show ?thesis
    using step [of ?mi ?mj] step [of ?mj ?mi] by (auto simp: slot_offset_eq [OF assms(1)])
qed

lemma mod_add_inj:
  fixes a i j c :: nat
  assumes "(a + i) mod c = (a + j) mod c" and "i < c" and "j < c"
  shows "i = j"
  using assms
proof (induction i j rule: linorder_wlog)
  case (le i j)
  from le.prems(1) have "c dvd (a + j) - (a + i)"
    using le.hyps by (metis add_le_cancel_left mod_eq_dvd_iff_nat)
  then have "c dvd j - i" by simp
  with le show ?case using dvd_imp_le [of c "j - i"] by (cases "i = j") auto
next
  case (sym i j)
  then show ?case by metis
qed

lemma index_mod:
  assumes "geometry_ok r"
  shows "unat (t + of_nat i :: u64) mod unat (capacity r) = (unat t + i) mod unat (capacity r)"
proof -
  obtain k where k: "k < 32" "unat (capacity r) = 2 ^ k"
    using capacity_unat [OF assms] by blast
  have "unat (t + of_nat i) = (unat t + i) mod 2 ^ 64"
    by (simp add: unat_word_ariths unat_of_nat mod_add_right_eq)
  moreover have "(2::nat) ^ k dvd 2 ^ 64"
    using k(1) by (intro le_imp_power_dvd) simp
  ultimately show ?thesis
    using k(2) by (simp add: mod_mod_cancel)
qed

lemma index_slots_disjoint:
  assumes "geometry_ok r" and "i < unat (capacity r)" and "j < unat (capacity r)" and "i \<noteq> j"
  shows "slot_offset r (t + of_nat i) + unat (slotSize r) \<le> slot_offset r (t + of_nat j) \<or>
    slot_offset r (t + of_nat j) + unat (slotSize r) \<le> slot_offset r (t + of_nat i)"
proof (rule slots_disjoint [OF assms(1)])
  show "unat (t + of_nat i) mod unat (capacity r) \<noteq> unat (t + of_nat j) mod unat (capacity r)"
    using mod_add_inj [of "unat t" i "unat (capacity r)" j] assms by (auto simp: index_mod)
qed

section \<open>What the operations do to the content\<close>

text \<open>A write inside the slot at head, begun and not yet committed, changes no item.\<close>

definition slot_write :: "Ring \<Rightarrow> bytes \<Rightarrow> bytes \<Rightarrow> bool" where
  "slot_write r region region' \<longleftrightarrow>
     agree_outside (slot_offset r (get_u64 region (head_at r)))
       (slot_offset r (get_u64 region (head_at r)) + unat (slotSize r)) region region'"

lemma head_eq: "get_u64 region (head_at r) = get_u64 region (tail_at r) + of_nat (unat (Count region r))"
  by (simp add: Count_def)

lemma slot_write_indices:
  assumes "geometry_ok r" and "slot_write r region region'"
  shows "get_u64 region' (head_at r) = get_u64 region (head_at r)"
    and "get_u64 region' (tail_at r) = get_u64 region (tail_at r)"
    and "Count region' r = Count region r" and "length region' = length region"
proof -
  let ?o = "slot_offset r (get_u64 region (head_at r))"
  have "ring_base r + 192 \<le> ?o" by (rule slot_in_range(1) [OF assms(1)])
  then have far: "head_at r + 8 \<le> ?o" "tail_at r + 8 \<le> ?o"
    by (simp_all add: head_at_def tail_at_def)
  show h: "get_u64 region' (head_at r) = get_u64 region (head_at r)"
    and t: "get_u64 region' (tail_at r) = get_u64 region (tail_at r)"
    using assms(2) far unfolding slot_write_def by (metis agree_outside_get(3))+
  show "Count region' r = Count region r" by (simp add: Count_def h t)
  show "length region' = length region"
    using assms(2) unfolding slot_write_def by (metis agree_outside_length)
qed

lemma slot_write_items:
  assumes inv: "ring_inv region r" and room: "unat (Count region r) < unat (capacity r)"
    and wr: "slot_write r region region'"
  shows "ring_items region' r = ring_items region r" and "ring_inv region' r"
proof -
  from inv have g: "geometry_ok r" by (simp add: ring_inv_def)
  note idx = slot_write_indices [OF g wr]
  have "slot_bytes region' r (get_u64 region (tail_at r) + of_nat i) =
      slot_bytes region r (get_u64 region (tail_at r) + of_nat i)" if "i < unat (Count region r)" for i
  proof -
    let ?h = "slot_offset r (get_u64 region (head_at r))"
    have "slot_offset r (get_u64 region (tail_at r) + of_nat i) + unat (slotSize r) \<le> ?h \<or>
      ?h + unat (slotSize r) \<le> slot_offset r (get_u64 region (tail_at r) + of_nat i)"
      unfolding head_eq [of region r]
      by (rule index_slots_disjoint [OF g]) (use that room in linarith)+
    then show ?thesis
      using agree_outside_sub [OF wr [unfolded slot_write_def]] by (simp add: slot_bytes_def)
  qed
  then show "ring_items region' r = ring_items region r"
    by (simp add: ring_items_def idx)
  show "ring_inv region' r"
    using inv by (simp add: ring_inv_def idx)
qed

lemma commit_indices:
  assumes "ring_inv region r"
  shows "get_u64 (ProduceCommit r region) (head_at r) = get_u64 region (head_at r) + 1"
    and "get_u64 (ProduceCommit r region) (tail_at r) = get_u64 region (tail_at r)"
    and "get_u64 (ConsumeCommit r region) (head_at r) = get_u64 region (head_at r)"
    and "get_u64 (ConsumeCommit r region) (tail_at r) = get_u64 region (tail_at r) + 1"
    and "length (ProduceCommit r region) = length region"
    and "length (ConsumeCommit r region) = length region"
  using assms by (simp_all add: ProduceCommit_def ConsumeCommit_def head_at_def tail_at_def
      ring_inv_def ring_end_def layout)

lemma commit_slots:
  assumes "ring_inv region r"
  shows "slot_bytes (ProduceCommit r region) r i = slot_bytes region r i"
    and "slot_bytes (ConsumeCommit r region) r i = slot_bytes region r i"
  using assms slot_in_range(1) [of r i]
  by (simp_all add: ProduceCommit_def ConsumeCommit_def head_at_def tail_at_def slot_bytes_def
      ring_inv_def ring_end_def layout)

lemma ProduceCommit_items:
  assumes inv: "ring_inv region r" and room: "unat (Count region r) < unat (capacity r)"
  shows "ring_items (ProduceCommit r region) r =
      ring_items region r @ [slot_bytes region r (get_u64 region (head_at r))]"
    and "ring_inv (ProduceCommit r region) r"
proof -
  have "unat (Count region r) < 2 ^ 32 - 1"
    using room unat_u32_less [of "capacity r"] by simp
  then have "unat (Count region r + 1) = Suc (unat (Count region r))"
    by (simp add: unat_word_ariths)
  moreover have "Count (ProduceCommit r region) r = Count region r + 1"
    using inv by (simp add: Count_def commit_indices)
  ultimately have count: "unat (Count (ProduceCommit r region) r) = Suc (unat (Count region r))"
    by simp
  show "ring_inv (ProduceCommit r region) r"
    using inv room count by (simp add: ring_inv_def commit_indices)
  show "ring_items (ProduceCommit r region) r =
      ring_items region r @ [slot_bytes region r (get_u64 region (head_at r))]"
    using inv by (simp add: ring_items_def count commit_indices commit_slots) (simp add: Count_def)
qed

lemma ConsumeCommit_items:
  assumes inv: "ring_inv region r" and some: "Count region r \<noteq> 0"
  shows "ring_items (ConsumeCommit r region) r = tl (ring_items region r)"
    and "ring_inv (ConsumeCommit r region) r"
proof -
  have "unat (Count region r) \<noteq> 0" using some by (simp add: unat_eq_zero)
  then have "unat (Count region r - 1) = unat (Count region r) - 1"
    by (simp add: unat_minus_one unat_eq_zero)
  moreover have "Count (ConsumeCommit r region) r = Count region r - 1"
    using inv by (simp add: Count_def commit_indices)
  ultimately have count: "unat (Count region r) = Suc (unat (Count (ConsumeCommit r region) r))"
    using \<open>unat (Count region r) \<noteq> 0\<close> by simp
  show "ring_inv (ConsumeCommit r region) r"
    using inv count by (simp add: ring_inv_def commit_indices)
  have "tl (map f [0..<Suc n]) = map (\<lambda>i. f (Suc i)) [0..<n]" for f :: "nat \<Rightarrow> bytes" and n
    by (simp add: map_upt_Suc del: upt_Suc)
  then show "ring_items (ConsumeCommit r region) r = tl (ring_items region r)"
    using inv by (simp add: ring_items_def count commit_indices commit_slots add.assoc del: upt_Suc)
qed

lemma ring_items_hd:
  "ring_items region r =
   (if Count region r = 0 then []
    else slot_bytes region r (get_u64 region (tail_at r)) # tl (ring_items region r))"
proof (cases "Count region r = 0")
  case True
  then show ?thesis by (simp add: ring_items_def)
next
  case False
  then obtain n where "unat (Count region r) = Suc n"
    using unat_eq_zero not0_implies_Suc by blast
  then show ?thesis
    using False by (simp add: ring_items_def map_upt_Suc del: upt_Suc)
qed

text \<open>What the two begin operations return, in terms of the content.\<close>

lemma ProduceBegin_eq:
  assumes "ring_inv region r"
  shows "ProduceBegin region r =
    (if length (ring_items region r) = unat (capacity r) then NilSlot
     else SlotAt (slot_offset r (get_u64 region (head_at r))))"
proof -
  have "ucast (capacity r) \<le> Count region r \<longleftrightarrow> unat (Count region r) = unat (capacity r)"
    using assms by (auto simp: word_le_nat_alt ring_inv_def)
  then show ?thesis
    using assms by (simp add: ProduceBegin_def Let_def ring_inv_def ring_slot_SlotAt
        flip: Count_def)
qed

lemma ConsumeBegin_eq:
  assumes "ring_inv region r"
  shows "ConsumeBegin region r =
    (if ring_items region r = [] then NilSlot
     else SlotAt (slot_offset r (get_u64 region (tail_at r))))"
proof -
  have "get_u64 region (head_at r) = get_u64 region (tail_at r) \<longleftrightarrow> Count region r = 0"
    by (simp add: Count_def)
  then show ?thesis
    using assms by (simp add: ConsumeBegin_def Let_def ring_inv_def ring_slot_SlotAt
        unat_eq_zero flip: length_0_conv)
qed

section \<open>Attaching and initialising\<close>

definition header_matches :: "bytes \<Rightarrow> Ring \<Rightarrow> bool" where
  "header_matches region r \<longleftrightarrow>
     get_u32 region (ring_base r) = ringMagic \<and> get_u32 region (ring_base r + 4) = slotSize r \<and>
     get_u32 region (ring_base r + 8) = capacity r \<and>
     get_u32 region (ring_base r + 12) = ring_mask r \<and>
     get_u32 region (ring_base r + 16) = slotsOff r"

lemma get_drop [simp]:
  "get_u32 (drop k bs) off = get_u32 bs (k + off)"
  "get_u64 (drop k bs) off = get_u64 bs (k + off)"
  by (simp_all add: get_u32_def get_u64_def)

lemma capacity_test_iff:
  fixes c :: u32
  shows "\<not> (c < 2 \<or> c AND (c - 1) \<noteq> 0) \<longleftrightarrow> (\<exists>k. 1 \<le> k \<and> k < 32 \<and> c = 2 ^ k)"
proof
  assume c: "\<not> (c < 2 \<or> c AND (c - 1) \<noteq> 0)"
  then have "c \<noteq> 0" by auto
  with c obtain k where k: "k < 32" "c = 2 ^ k"
    using word_pow2_iff [of c] by auto
  moreover from c k(2) have "k \<noteq> 0" by (intro notI) (simp add: word_less_nat_alt)
  ultimately show "\<exists>k. 1 \<le> k \<and> k < 32 \<and> c = 2 ^ k"
    by (intro exI [of _ k]) simp
next
  assume "\<exists>k. 1 \<le> k \<and> k < 32 \<and> c = 2 ^ k"
  then obtain k where k: "1 \<le> k" "k < 32" "c = 2 ^ k" by blast
  then have "c AND (c - 1) = 0" using word_pow2_iff [of c] by auto
  moreover have "unat c = 2 ^ k" using k by (simp add: unat_exp_eq)
  moreover have "(2::nat) ^ 1 \<le> 2 ^ k" using k(1) by (intro power_increasing) simp_all
  ultimately show "\<not> (c < 2 \<or> c AND (c - 1) \<noteq> 0)"
    by (simp add: word_less_nat_alt)
qed

lemma AttachRing_eq:
  "AttachRing region base = Inr r \<longleftrightarrow>
   ring_base r = base \<and> ring_inv region r \<and> header_matches region r"
proof -
  have range: "\<not> length (drop base region) < 192 + n \<longleftrightarrow> base + (192 + n) \<le> length region" for n
    by (auto simp: not_less)
  have word: "\<not> c < h - (t :: u64) \<longleftrightarrow> unat (h - t) \<le> unat c" for h t c
    by (simp add: word_less_nat_alt not_less)
  let ?attach = "AttachRing region base = Inr r"
  have "?attach \<longleftrightarrow>
    \<not> length (drop base region) < 192 + 0 \<and>
    \<not> (get_u32 region (base + 8) < 2 \<or>
       get_u32 region (base + 8) AND (get_u32 region (base + 8) - 1) \<noteq> 0) \<and>
    get_u32 region base = ringMagic \<and> get_u32 region (base + 4) \<noteq> 0 \<and>
    get_u32 region (base + 12) = get_u32 region (base + 8) - 1 \<and> get_u32 region (base + 16) = 192 \<and>
    \<not> length (drop base region) < 192 + unat (get_u32 region (base + 4)) * unat (get_u32 region (base + 8)) \<and>
    \<not> ucast (get_u32 region (base + 8)) < get_u64 region (base + 64) - get_u64 region (base + 128) \<and>
    r = \<lparr>ring_base = base, slotSize = get_u32 region (base + 4), capacity = get_u32 region (base + 8),
         ring_mask = get_u32 region (base + 12), slotsOff = get_u32 region (base + 16)\<rparr>"
    by (auto simp: AttachRing_def Let_def)
  also have "\<dots> \<longleftrightarrow> ring_base r = base \<and> ring_inv region r \<and> header_matches region r"
    unfolding capacity_test_iff range word
    by (cases r) (auto simp: ring_inv_def geometry_ok_def header_matches_def Count_def head_at_def
        tail_at_def ring_end_def)
  finally show ?thesis .
qed

lemma initRing_attaches:
  assumes "\<not> (capv < 2 \<or> capv AND (capv - 1) \<noteq> 0)" and "slot \<noteq> 0"
    and need: "192 + unat slot * unat capv \<le> length mem"
  shows "initRing mem slot capv =
    (Inr \<lparr>ring_base = 0, slotSize = slot, capacity = capv, ring_mask = capv - 1, slotsOff = 192\<rparr>,
     snd (initRing mem slot capv)) \<and>
    Count (snd (initRing mem slot capv))
      \<lparr>ring_base = 0, slotSize = slot, capacity = capv, ring_mask = capv - 1, slotsOff = 192\<rparr> = 0"
proof -
  let ?r = "\<lparr>ring_base = 0, slotSize = slot, capacity = capv, ring_mask = capv - 1, slotsOff = 192\<rparr>"
  let ?m0 = "clear_prefix (192 + unat slot * unat capv) mem"
  let ?m = "put_u32 0 ringMagic (put_u64 128 0 (put_u64 64 0 (put_u32 16 192
    (put_u32 12 (capv - 1) (put_u32 8 capv (put_u32 4 slot ?m0))))))"
  have len: "192 \<le> length mem" using need by simp
  have fields: "get_u32 ?m 0 = ringMagic" "get_u32 ?m 4 = slot" "get_u32 ?m 8 = capv"
    "get_u32 ?m 12 = capv - 1" "get_u32 ?m 16 = 192" "get_u64 ?m 64 = 0" "get_u64 ?m 128 = 0"
    using len by (simp_all add: layout)
  have "length ?m = length mem" using len by simp
  then have "ring_inv ?m ?r"
    using assms(1,2) need fields(6,7) unfolding capacity_test_iff
    by (auto simp: ring_inv_def geometry_ok_def ring_end_def Count_def head_at_def tail_at_def)
  then have "AttachRing ?m 0 = Inr ?r"
    unfolding AttachRing_eq using fields by (simp add: header_matches_def)
  moreover have "initRing mem slot capv = (AttachRing ?m 0, ?m)"
    using assms by (simp add: initRing_def Let_def)
  ultimately show ?thesis
    using fields(6,7) by (simp add: Count_def head_at_def tail_at_def)
qed

section \<open>The ring is a bounded queue\<close>

text \<open>
  A whole produce step of one side: begin, fill the slot, commit; and a whole consume step.
  The state of the queue is the region with the view on it.
\<close>

definition produce :: "bytes \<Rightarrow> bytes \<times> Ring \<Rightarrow> (bytes \<times> Ring) option" where
  "produce x s =
    (case ProduceBegin (fst s) (snd s) of
       SlotAt off \<Rightarrow> Some (ProduceCommit (snd s) (blit (fst s) off x), snd s)
     | _ \<Rightarrow> None)"

definition front :: "bytes \<times> Ring \<Rightarrow> bytes option" where
  "front s =
    (case ConsumeBegin (fst s) (snd s) of
       SlotAt off \<Rightarrow> Some (sub (fst s) off (unat (slotSize (snd s))))
     | _ \<Rightarrow> None)"

definition consume :: "bytes \<times> Ring \<Rightarrow> bytes \<times> Ring" where
  "consume s = (ConsumeCommit (snd s) (fst s), snd s)"

lemma produce_commit:
  assumes inv: "ring_inv region r" and room: "length (ring_items region r) \<noteq> unat (capacity r)"
    and wr: "slot_write r region region'"
  shows "ring_inv (ProduceCommit r region') r"
    and "ring_items (ProduceCommit r region') r =
      ring_items region r @ [sub region' (slot_offset r (get_u64 region (head_at r))) (unat (slotSize r))]"
proof -
  have g: "geometry_ok r" and lt: "unat (Count region r) < unat (capacity r)"
    using inv room by (auto simp: ring_inv_def)
  note w = slot_write_items [OF inv lt wr] slot_write_indices [OF g wr]
  show "ring_inv (ProduceCommit r region') r"
    using ProduceCommit_items(2) [of region' r] w lt by simp
  show "ring_items (ProduceCommit r region') r =
      ring_items region r @ [sub region' (slot_offset r (get_u64 region (head_at r))) (unat (slotSize r))]"
    using ProduceCommit_items(1) [of region' r] w lt by (simp add: slot_bytes_def)
qed

lemma produce_Some:
  assumes inv: "ring_inv region r" and len: "length x = unat (slotSize r)"
    and some: "produce x (region, r) = Some s"
  shows "snd s = r" and "ring_inv (fst s) r" and "ring_items (fst s) r = ring_items region r @ [x]"
proof -
  let ?off = "slot_offset r (get_u64 region (head_at r))" and ?region = "blit region (slot_offset r (get_u64 region (head_at r))) x"
  from some inv have room: "length (ring_items region r) \<noteq> unat (capacity r)"
    and s: "s = (ProduceCommit r ?region, r)"
    by (auto simp: produce_def ProduceBegin_eq split: if_splits)
  have fits: "?off + length x \<le> length region"
    using slot_in_range(2) [of r] inv len by (simp add: ring_inv_def) (meson le_trans)
  then have "slot_write r region ?region"
    using len by (simp add: slot_write_def agree_outside_blit)
  note p = produce_commit [OF inv room this]
  show "snd s = r" and "ring_inv (fst s) r" by (simp_all add: s p)
  show "ring_items (fst s) r = ring_items region r @ [x]"
    using fits len by (simp add: s p sub_blit_same)
qed

lemma front_eq: "ring_inv region r \<Longrightarrow>
  front (region, r) = (case ring_items region r of [] \<Rightarrow> None | x # _ \<Rightarrow> Some x)"
  using ring_items_hd [of region r]
  by (auto simp: front_def ConsumeBegin_eq slot_bytes_def split: list.splits if_splits)

interpretation ring: bounded_fifo
  "\<lambda>s. ring_inv (fst s) (snd s)" "\<lambda>s. ring_items (fst s) (snd s)" "\<lambda>s. unat (capacity (snd s))"
  "\<lambda>s x. length x = unat (slotSize (snd s))" produce front consume
proof unfold_locales
  fix s s' :: "bytes \<times> Ring" and x
  assume inv: "ring_inv (fst s) (snd s)"
  obtain region r where s: "s = (region, r)" by (cases s)
  show "length (ring_items (fst s) (snd s)) \<le> unat (capacity (snd s))"
    using inv by (simp add: ring_inv_def)
  show "produce x s = None \<longleftrightarrow> length (ring_items (fst s) (snd s)) = unat (capacity (snd s))"
    using inv by (simp add: produce_def ProduceBegin_eq)
  show "front s = (case ring_items (fst s) (snd s) of [] \<Rightarrow> None | x # _ \<Rightarrow> Some x)"
    using inv by (simp add: s front_eq)
  {
    assume "length x = unat (slotSize (snd s))" and "produce x s = Some s'"
    then show "ring_inv (fst s') (snd s')"
      and "ring_items (fst s') (snd s') = ring_items (fst s) (snd s) @ [x]"
      and "unat (capacity (snd s')) = unat (capacity (snd s)) \<and>
        (\<lambda>x. length x = unat (slotSize (snd s'))) = (\<lambda>x. length x = unat (slotSize (snd s)))"
      using produce_Some [of region r x s'] inv by (simp_all add: s)
  }
  assume "ring_items (fst s) (snd s) \<noteq> []"
  then have "Count region r \<noteq> 0" by (auto simp: s ring_items_def)
  then show "ring_inv (fst (consume s)) (snd (consume s))"
    and "ring_items (fst (consume s)) (snd (consume s)) = tl (ring_items (fst s) (snd s))"
    using ConsumeCommit_items [of region r] inv by (simp_all add: s consume_def)
  show "unat (capacity (snd (consume s))) = unat (capacity (snd s)) \<and>
    (\<lambda>x. length x = unat (slotSize (snd (consume s)))) = (\<lambda>x. length x = unat (slotSize (snd s)))"
    by (simp add: consume_def)
qed

section \<open>Properties\<close>

text \<open>A small ring, two slots of eight bytes, as \<open>initRing\<close> lays it out.\<close>

definition sample_ring :: Ring where
  "sample_ring = \<lparr>ring_base = 0, slotSize = 8, capacity = 2, ring_mask = 1, slotsOff = 192\<rparr>"

definition sample_region :: bytes where
  "sample_region = snd (initRing (replicate 208 7) 8 2)"

lemma sample_attach: "AttachRing sample_region 0 = Inr sample_ring"
  and sample_empty: "ring_items sample_region sample_ring = []"
proof -
  have "\<not> ((2 :: u32) < 2 \<or> (2 :: u32) AND (2 - 1) \<noteq> 0)" "(8 :: u32) \<noteq> 0"
    "192 + unat (8 :: u32) * unat (2 :: u32) \<le> length (replicate 208 (7 :: byte))"
    by simp_all
  note init = initRing_attaches [OF this]
  have "initRing (replicate 208 7) 8 2 =
    (AttachRing sample_region 0, sample_region)"
    by (simp add: sample_region_def initRing_def Let_def)
  with init show "AttachRing sample_region 0 = Inr sample_ring"
    by (simp add: sample_ring_def)
  show "ring_items sample_region sample_ring = []"
    using init by (simp add: ring_items_def sample_region_def sample_ring_def)
qed

lemma sample_inv: "ring_inv sample_region sample_ring"
  using sample_attach by (simp add: AttachRing_eq)

text \<open>
  C14. Attaching is exact: it adopts a ring view if and only if the region's header carries the
  magic and exactly the view's geometry, the capacity is a power of two of at least two with
  the matching mask, the slots fit into the mapped bytes behind the fixed header, and the
  occupancy read from head and tail, modulo 2 to the 64, is within the capacity.
\<close>

theorem AttachRing_iff:
  "AttachRing region base = Inr r \<longleftrightarrow>
   ring_base r = base \<and> header_matches region r \<and>
   (\<exists>k. 1 \<le> k \<and> k < 32 \<and> unat (capacity r) = 2 ^ k) \<and> ring_mask r = capacity r - 1 \<and>
   slotsOff r = of_nat ringHdrBytes \<and> slotSize r \<noteq> 0 \<and>
   base + ringHdrBytes + unat (slotSize r) * unat (capacity r) \<le> length region \<and>
   unat (Count region r) \<le> unat (capacity r)"
proof -
  have "(\<exists>k. 1 \<le> k \<and> k < 32 \<and> unat (capacity r) = 2 ^ k) \<longleftrightarrow>
    (\<exists>k. 1 \<le> k \<and> k < 32 \<and> capacity r = 2 ^ k)"
  proof -
    have "unat (capacity r) = 2 ^ k \<longleftrightarrow> capacity r = 2 ^ k" if "k < 32" for k
      using that unat_exp_eq [of k, where ?'a = 32] by (simp add: word_unat_eq_iff)
    then show ?thesis by blast
  qed
  then show ?thesis
    by (auto simp: AttachRing_eq ring_inv_def geometry_ok_def ring_end_def)
qed

text \<open>
  C15. An attached ring never addresses memory outside its region and never touches its own
  header through a slot: whatever the two sides later write into the region, head and tail
  included, the slot of every 64-bit index lies behind the header and inside the mapping, so
  neither begin operation can hit an out-of-range slice.
\<close>

theorem ring_slots_in_range:
  assumes "AttachRing region base = Inr r" and "length region' = length region"
  shows "\<exists>off. ring_slot region' r index = SlotAt off \<and> base + ringHdrBytes \<le> off \<and>
      off + unat (SlotSize r) \<le> length region' \<and>
    ProduceBegin region' r \<noteq> SlotPanic \<and> ConsumeBegin region' r \<noteq> SlotPanic"
proof -
  from assms have g: "geometry_ok r" and e: "ring_end r \<le> length region'" and b: "ring_base r = base"
    by (simp_all add: AttachRing_eq ring_inv_def)
  note slot = ring_slot_SlotAt [OF g e]
  show ?thesis
    using slot_in_range [OF g, of index] e b
    by (auto simp: slot ProduceBegin_def ConsumeBegin_def Let_def SlotSize_def)
qed

theorem ring_slots_in_range_witness:
  "ProduceBegin (replicate 208 255) sample_ring \<noteq> SlotPanic"
proof -
  have "length (replicate 208 (255 :: byte)) = length sample_region"
    using sample_inv by (simp add: sample_region_def initRing_def Let_def)
  with ring_slots_in_range [OF sample_attach] show ?thesis by blast
qed

text \<open>
  C16. The ring is a bounded first-in first-out queue of slots: producing on a full ring is
  refused, and otherwise appends the slot's content to the items and keeps the invariant;
  consuming sees the oldest item and removes exactly it. The indices may wrap around at 2 to
  the 64 in between; the content is the same list either way.
\<close>

theorem ring_refines_queue:
  assumes "ring_inv region r" and "length x = unat (slotSize r)"
  shows "(case produce x (region, r) of
      None \<Rightarrow> length (ring_items region r) = unat (capacity r)
    | Some (region', r') \<Rightarrow> r' = r \<and> ring_inv region' r \<and>
        ring_items region' r = ring_items region r @ [x] \<and>
        length (ring_items region r) < unat (capacity r)) \<and>
    (case front (region, r) of
      None \<Rightarrow> ring_items region r = []
    | Some y \<Rightarrow> ring_items region r = y # ring_items (ConsumeCommit r region) r \<and>
        ring_inv (ConsumeCommit r region) r)"
proof (intro conjI)
  let ?s = "(region, r)"
  show "case produce x ?s of
      None \<Rightarrow> length (ring_items region r) = unat (capacity r)
    | Some (region', r') \<Rightarrow> r' = r \<and> ring_inv region' r \<and>
        ring_items region' r = ring_items region r @ [x] \<and>
        length (ring_items region r) < unat (capacity r)"
  proof (cases "produce x ?s")
    case None
    then show ?thesis using ring.push_full [of ?s x] assms by simp
  next
    case (Some t)
    moreover have "length (ring_items region r) < unat (capacity r)"
      using Some ring.push_full [of ?s x] ring.items_bound [of ?s] assms by fastforce
    ultimately show ?thesis
      using produce_Some [OF assms Some] by (cases t) simp
  qed
  show "case front ?s of
      None \<Rightarrow> ring_items region r = []
    | Some y \<Rightarrow> ring_items region r = y # ring_items (ConsumeCommit r region) r \<and>
        ring_inv (ConsumeCommit r region) r"
    using ring.peek_items [of ?s] ring.pop_items [of ?s] ring.pop_inv [of ?s] assms
    by (cases "ring_items region r") (simp_all add: consume_def)
qed

theorem ring_refines_queue_witness:
  "\<exists>region'. produce [1,2,3,4,5,6,7,8] (sample_region, sample_ring) = Some (region', sample_ring) \<and>
    ring_items region' sample_ring = [[1,2,3,4,5,6,7,8]]"
proof -
  have "produce [1,2,3,4,5,6,7,8] (sample_region, sample_ring) \<noteq> None"
    using ring.push_full [of "(sample_region, sample_ring)"] sample_inv
    by (simp add: sample_empty) (simp add: sample_ring_def)
  then obtain t where t: "produce [1,2,3,4,5,6,7,8] (sample_region, sample_ring) = Some t" by blast
  have "length [1,2,3,4,5,6,7,8 :: byte] = unat (slotSize sample_ring)"
    by (simp add: sample_ring_def)
  from ring_refines_queue [OF sample_inv this] t show ?thesis
    by (cases t) (simp add: sample_empty)
qed

end
