(* ===== verification/Ring_Interleaving.thy ===== *)
theory Ring_Interleaving
  imports Ring
begin

text \<open>
  The two sides of a ring running concurrently. A producer begins a slot, writes into it any
  number of times and commits it (or gives it up, as \<^verbatim>\<open>emit\<close> does when the frame does not
  encode); a consumer begins the oldest slot, holds it, and commits it later, as \<^verbatim>\<open>Poll\<close>
  does. Each load or store of the other side's index is one atomic step of the sources; the
  load of a side's own index cannot be disturbed, so a begin and a commit are one step each.
  The ghost fields record the slots as committed by the producer and as released by the
  consumer. The atomics of Go are sequentially consistent, which is what an interleaving
  of steps models.
\<close>

record spsc =
  shared :: bytes
  producer :: "nat option"
  consumer :: "(nat \<times> bytes) option"
  sent :: "bytes list"
  received :: "bytes list"

inductive spsc_step :: "Ring \<Rightarrow> spsc \<Rightarrow> spsc \<Rightarrow> bool" for r :: Ring where
  p_begin: "producer s = None \<Longrightarrow> ProduceBegin (shared s) r = SlotAt off \<Longrightarrow>
    spsc_step r s (s\<lparr>producer := Some off\<rparr>)"
| p_write: "producer s = Some off \<Longrightarrow> k + length bs \<le> unat (slotSize r) \<Longrightarrow>
    spsc_step r s (s\<lparr>shared := blit (shared s) (off + k) bs\<rparr>)"
| p_abort: "producer s = Some off \<Longrightarrow> spsc_step r s (s\<lparr>producer := None\<rparr>)"
| p_commit: "producer s = Some off \<Longrightarrow>
    spsc_step r s (s\<lparr>shared := ProduceCommit r (shared s), producer := None,
      sent := sent s @ [sub (shared s) off (unat (slotSize r))]\<rparr>)"
| c_begin: "consumer s = None \<Longrightarrow> ConsumeBegin (shared s) r = SlotAt off \<Longrightarrow>
    spsc_step r s (s\<lparr>consumer := Some (off, sub (shared s) off (unat (slotSize r)))\<rparr>)"
| c_commit: "consumer s = Some (off, v) \<Longrightarrow>
    spsc_step r s (s\<lparr>shared := ConsumeCommit r (shared s), consumer := None,
      received := received s @ [sub (shared s) off (unat (slotSize r))]\<rparr>)"

inductive spsc_reach :: "Ring \<Rightarrow> spsc \<Rightarrow> spsc \<Rightarrow> bool" for r :: Ring and s0 :: spsc where
  start: "spsc_reach r s0 s0"
| step: "spsc_reach r s0 s \<Longrightarrow> spsc_step r s t \<Longrightarrow> spsc_reach r s0 t"

text \<open>A start: an attached ring, both sides idle, what is in the ring counted as sent.\<close>

definition spsc_start :: "Ring \<Rightarrow> spsc \<Rightarrow> bool" where
  "spsc_start r s \<longleftrightarrow> ring_inv (shared s) r \<and> producer s = None \<and> consumer s = None \<and>
     sent s = ring_items (shared s) r \<and> received s = []"

text \<open>
  The invariant. The slot the producer holds is the one at head, with room for it; the slot
  the consumer holds is the oldest item, and what it read is that item.
\<close>

definition spsc_inv :: "Ring \<Rightarrow> spsc \<Rightarrow> bool" where
  "spsc_inv r s \<longleftrightarrow>
     ring_inv (shared s) r \<and> sent s = received s @ ring_items (shared s) r \<and>
     (\<forall>off. producer s = Some off \<longrightarrow>
        off = slot_offset r (get_u64 (shared s) (head_at r)) \<and>
        length (ring_items (shared s) r) \<noteq> unat (capacity r)) \<and>
     (\<forall>off v. consumer s = Some (off, v) \<longrightarrow>
        off = slot_offset r (get_u64 (shared s) (tail_at r)) \<and>
        ring_items (shared s) r \<noteq> [] \<and> v = hd (ring_items (shared s) r))"

lemma spsc_start_inv: "spsc_start r s \<Longrightarrow> spsc_inv r s"
  by (simp add: spsc_start_def spsc_inv_def)

lemma front_slot:
  "ring_items region r \<noteq> [] \<Longrightarrow>
   sub region (slot_offset r (get_u64 region (tail_at r))) (unat (slotSize r)) = hd (ring_items region r)"
  using ring_items_hd [of region r] by (metis list.sel(1) slot_bytes_def)

lemma p_write_inv:
  assumes inv: "spsc_inv r s" and p: "producer s = Some off" and fits: "k + length bs \<le> unat (slotSize r)"
  shows "spsc_inv r (s\<lparr>shared := blit (shared s) (off + k) bs\<rparr>)"
proof -
  let ?m = "blit (shared s) (off + k) bs"
  from inv p have ring: "ring_inv (shared s) r" and off: "off = slot_offset r (get_u64 (shared s) (head_at r))"
    and room: "unat (Count (shared s) r) < unat (capacity r)"
    by (auto simp: spsc_inv_def ring_inv_def)
  then have g: "geometry_ok r" and mem: "ring_end r \<le> length (shared s)"
    by (simp_all add: ring_inv_def)
  have "off + unat (slotSize r) \<le> length (shared s)"
    using slot_in_range(2) [OF g] mem unfolding off by (rule le_trans)
  then have "slot_write r (shared s) ?m"
    using fits unfolding slot_write_def off [symmetric] by (intro agree_outside_blit) simp_all
  note w = slot_write_items [OF ring room this] slot_write_indices [OF g this]
  show ?thesis
    using inv w p unfolding spsc_inv_def by simp
qed

lemma p_commit_inv:
  assumes inv: "spsc_inv r s" and p: "producer s = Some off"
  shows "spsc_inv r (s\<lparr>shared := ProduceCommit r (shared s), producer := None,
    sent := sent s @ [sub (shared s) off (unat (slotSize r))]\<rparr>)"
proof -
  from inv p have ring: "ring_inv (shared s) r" and off: "off = slot_offset r (get_u64 (shared s) (head_at r))"
    and room: "length (ring_items (shared s) r) \<noteq> unat (capacity r)"
    by (auto simp: spsc_inv_def)
  have "slot_write r (shared s) (shared s)" by (simp add: slot_write_def)
  note c = produce_commit [OF ring room this] commit_indices [OF ring]
  show ?thesis
    using inv c unfolding spsc_inv_def off by (simp add: hd_append)
qed

lemma c_commit_inv:
  assumes inv: "spsc_inv r s" and c: "consumer s = Some (off, v)"
  shows "spsc_inv r (s\<lparr>shared := ConsumeCommit r (shared s), consumer := None,
    received := received s @ [sub (shared s) off (unat (slotSize r))]\<rparr>)"
proof -
  from inv c have ring: "ring_inv (shared s) r" and off: "off = slot_offset r (get_u64 (shared s) (tail_at r))"
    and some: "ring_items (shared s) r \<noteq> []"
    by (auto simp: spsc_inv_def)
  from some have "Count (shared s) r \<noteq> 0" by (auto simp: ring_items_def)
  note k = ConsumeCommit_items [OF ring this] commit_indices [OF ring]
  have len: "length (tl (ring_items (shared s) r)) \<noteq> unat (capacity r)"
    using ring some by (auto simp: ring_inv_def) (metis Suc_pred diff_Suc_1 length_greater_0_conv
        length_ring_items not_less_eq_eq order_refl)
  show ?thesis
    using inv k len some unfolding spsc_inv_def off front_slot [OF some] by auto
qed

lemma spsc_step_inv: "spsc_step r s t \<Longrightarrow> spsc_inv r s \<Longrightarrow> spsc_inv r t"
proof (induction rule: spsc_step.induct)
  case (p_begin s off)
  then show ?case
    by (auto simp: spsc_inv_def ProduceBegin_eq split: if_splits)
next
  case (c_begin s off)
  then show ?case
    by (auto simp: spsc_inv_def ConsumeBegin_eq front_slot split: if_splits)
next
  case (p_abort s off)
  then show ?case by (simp add: spsc_inv_def)
qed (auto intro: p_write_inv p_commit_inv c_commit_inv)

lemma spsc_reach_inv: "spsc_reach r s0 s \<Longrightarrow> spsc_start r s0 \<Longrightarrow> spsc_inv r s"
  by (induction rule: spsc_reach.induct) (auto intro: spsc_start_inv spsc_step_inv)

section \<open>Properties\<close>

text \<open>
  C17. Under every interleaving of one producer and one consumer on an attached ring: what the
  consumer has released followed by what is in the ring is exactly what the producer has
  committed, in order (nothing lost, duplicated or reordered); the occupancy never exceeds
  the capacity; a slot the consumer holds still has the content it had when handed out, so
  the producer never overwrites an unconsumed slot; and the slots held by the two sides are
  disjoint.
\<close>

theorem spsc_linearizable:
  assumes "AttachRing (shared s0) base = Inr r" and "spsc_start r s0" and "spsc_reach r s0 s"
  shows "sent s = received s @ ring_items (shared s) r \<and>
    length (ring_items (shared s) r) \<le> unat (capacity r) \<and>
    (\<forall>off v. consumer s = Some (off, v) \<longrightarrow> sub (shared s) off (unat (slotSize r)) = v) \<and>
    (\<forall>p c v. producer s = Some p \<longrightarrow> consumer s = Some (c, v) \<longrightarrow>
       p + unat (slotSize r) \<le> c \<or> c + unat (slotSize r) \<le> p)"
proof -
  have inv: "spsc_inv r s" by (rule spsc_reach_inv [OF assms(3,2)])
  then have ring: "ring_inv (shared s) r" by (simp add: spsc_inv_def)
  then have g: "geometry_ok r" by (simp add: ring_inv_def)
  have disjoint: "p + unat (slotSize r) \<le> c \<or> c + unat (slotSize r) \<le> p"
    if p: "producer s = Some p" and c: "consumer s = Some (c, v)" for p c v
  proof -
    from inv c have "ring_items (shared s) r \<noteq> []" by (simp add: spsc_inv_def)
    then have "0 < unat (Count (shared s) r)" by (simp flip: length_ring_items)
    moreover have "unat (Count (shared s) r) < unat (capacity r)"
      using inv p ring by (auto simp: spsc_inv_def ring_inv_def)
    moreover have "get_u64 (shared s) (head_at r) = get_u64 (shared s) (tail_at r) + Count (shared s) r"
      by (simp add: Count_def)
    ultimately show ?thesis
      using index_slots_disjoint [OF g, of "unat (Count (shared s) r)" 0 "get_u64 (shared s) (tail_at r)"]
        inv p c by (auto simp: spsc_inv_def)
  qed
  show ?thesis
    using inv ring disjoint by (auto simp: spsc_inv_def ring_inv_def front_slot)
qed

definition sample_start :: spsc where
  "sample_start = \<lparr>shared = sample_region, producer = None, consumer = None, sent = [], received = []\<rparr>"

theorem spsc_linearizable_witness:
  "\<exists>s. spsc_reach sample_ring sample_start s \<and> length (sent s) = 1 \<and>
    ring_items (shared s) sample_ring = sent s"
proof -
  let ?o = "slot_offset sample_ring (get_u64 sample_region (head_at sample_ring))"
  let ?s1 = "sample_start\<lparr>producer := Some ?o\<rparr>"
  let ?s2 = "?s1\<lparr>shared := ProduceCommit sample_ring (shared ?s1), producer := None,
      sent := sent ?s1 @ [sub (shared ?s1) ?o (unat (slotSize sample_ring))]\<rparr>"
  have start: "spsc_start sample_ring sample_start"
    by (simp add: spsc_start_def sample_start_def sample_inv sample_empty)
  have "spsc_step sample_ring sample_start ?s1"
    using sample_inv sample_empty
    by (intro p_begin) (simp_all add: sample_start_def ProduceBegin_eq sample_ring_def)
  then have r1: "spsc_reach sample_ring sample_start ?s1"
    by (rule spsc_reach.step [OF spsc_reach.start])
  have "spsc_step sample_ring ?s1 ?s2" by (intro p_commit) simp
  then have r2: "spsc_reach sample_ring sample_start ?s2" by (rule spsc_reach.step [OF r1])
  have attach: "AttachRing (shared sample_start) 0 = Inr sample_ring"
    by (simp add: sample_start_def sample_attach)
  have "sent ?s2 = received ?s2 @ ring_items (shared ?s2) sample_ring"
    using spsc_linearizable [OF attach start r2] by blast
  moreover have "received ?s2 = []" "length (sent ?s2) = 1" by (simp_all add: sample_start_def)
  ultimately show ?thesis
    using r2 by (metis append_Nil)
qed

end
