(* ===== verification/Region.thy ===== *)
theory Region
  imports Ring
begin

text \<open>
  The mapped regions of an attached client, \<^verbatim>\<open>server-go/bus/region.go\<close>, and the size of a
  queue pair, \<^verbatim>\<open>qpairBytes\<close> of \<^verbatim>\<open>client.go\<close>: the control region (read only, written by the
  host) and the queue pair with its two rings. A view is the geometry validated at attach
  time; the accessors read the region's bytes at the time of the call. Proved here: what an
  attach that succeeds guarantees, that the heartbeat touches neither ring, and that the
  layout \<^verbatim>\<open>qpairBytes\<close> mirrors keeps the header and both rings apart and inside the mapping.
\<close>

section \<open>Control region\<close>

definition ctlMagic :: u32 where [simp]: "ctlMagic = 0x4c544342"
definition ctlOffMagic :: nat where [simp]: "ctlOffMagic = 0"
definition ctlOffSpec :: nat where [simp]: "ctlOffSpec = 4"
definition ctlOffLayout :: nat where [simp]: "ctlOffLayout = 8"
definition ctlOffSlot :: nat where [simp]: "ctlOffSlot = 16"
definition ctlOffInline :: nat where [simp]: "ctlOffInline = 20"
definition ctlOffQueueCap :: nat where [simp]: "ctlOffQueueCap = 24"
definition ctlOffArena :: nat where [simp]: "ctlOffArena = 32"
definition ctlOffEpoch :: nat where [simp]: "ctlOffEpoch = 40"
definition ctlOffHeartbeat :: nat where [simp]: "ctlOffHeartbeat = 48"
definition ctlBytes :: nat where [simp]: "ctlBytes = 96"
definition specVersion :: u32 where [simp]: "specVersion = 1"
definition layoutVersion :: u32 where [simp]: "layoutVersion = 1"

definition AttachControl :: "bytes \<Rightarrow> err + unit" where
  "AttachControl mem =
    (if length mem < ctlBytes then Inl ErrRegion
     else if get_u32 mem ctlOffMagic \<noteq> ctlMagic then Inl ErrRegion
     else if get_u32 mem ctlOffSpec \<noteq> specVersion \<or> get_u32 mem ctlOffLayout \<noteq> layoutVersion
     then Inl ErrRegion
     else
       (let slot = get_u32 mem ctlOffSlot;
            inl = get_u32 mem ctlOffInline;
            arena = get_u64 mem ctlOffArena
        in if slot = 0 \<or> inl > slot \<or> arena = 0 then Inl ErrRegion else Inr ()))"

definition Control_SlotSize :: "bytes \<Rightarrow> u32" where "Control_SlotSize mem = get_u32 mem ctlOffSlot"
definition Control_InlineBudget :: "bytes \<Rightarrow> u32" where "Control_InlineBudget mem = get_u32 mem ctlOffInline"
definition Control_QueueCapacity :: "bytes \<Rightarrow> u32" where "Control_QueueCapacity mem = get_u32 mem ctlOffQueueCap"
definition Control_ArenaSize :: "bytes \<Rightarrow> u64" where "Control_ArenaSize mem = get_u64 mem ctlOffArena"
definition Control_Epoch :: "bytes \<Rightarrow> u64" where "Control_Epoch mem = get_u64 mem ctlOffEpoch"

section \<open>Queue pair\<close>

definition qpMagic :: u32 where [simp]: "qpMagic = 0x52504251"
definition qpOffMagic :: nat where [simp]: "qpOffMagic = 0"
definition qpOffSlot :: nat where [simp]: "qpOffSlot = 4"
definition qpOffCap :: nat where [simp]: "qpOffCap = 8"
definition qpOffCtlCredits :: nat where [simp]: "qpOffCtlCredits = 16"
definition qpOffCtlLost :: nat where [simp]: "qpOffCtlLost = 20"
definition qpOffInboundOff :: nat where [simp]: "qpOffInboundOff = 24"
definition qpOffOutboundOff :: nat where [simp]: "qpOffOutboundOff = 28"
definition qpOffHeartbeat :: nat where [simp]: "qpOffHeartbeat = 32"
definition qpBytes :: nat where [simp]: "qpBytes = 96"

record QueuePair =
  Inbound :: Ring
  Outbound :: Ring

definition AttachQueuePair :: "bytes \<Rightarrow> err + QueuePair" where
  "AttachQueuePair mem =
    (if length mem < qpBytes then Inl ErrRegion
     else if get_u32 mem qpOffMagic \<noteq> qpMagic then Inl ErrRegion
     else
       (let inOff = get_u32 mem qpOffInboundOff;
            outOff = get_u32 mem qpOffOutboundOff
        in if unat inOff \<ge> length mem \<or> unat outOff \<ge> length mem \<or> inOff = outOff
           then Inl ErrRegion
           else
             bind_sum (AttachRing mem (unat inOff)) (\<lambda>inbound.
             bind_sum (AttachRing mem (unat outOff)) (\<lambda>outbound.
             Inr \<lparr>Inbound = inbound, Outbound = outbound\<rparr>))))"

definition ControlLost :: "bytes \<Rightarrow> bool" where
  "ControlLost mem \<longleftrightarrow> get_u32 mem qpOffCtlLost \<noteq> 0"

definition SetHeartbeat :: "u64 \<Rightarrow> bytes \<Rightarrow> bytes" where
  "SetHeartbeat now mem = put_u64 qpOffHeartbeat now mem"

section \<open>Size of a queue pair\<close>

text \<open>
  \<open>qpairBytes\<close> computes with Go's 64-bit \<^verbatim>\<open>int\<close>; the word is its two's complement, so the
  arithmetic wraps as the source's does.
\<close>

definition align64 :: "u64 \<Rightarrow> u64" where
  "align64 n = (n + 63) AND NOT 63"

definition qpairBytes :: "u32 \<Rightarrow> u32 \<Rightarrow> u64" where
  "qpairBytes slot capv =
    (let ring = of_nat ringHdrBytes + ucast slot * ucast capv;
         inOff = align64 (of_nat qpBytes);
         outOff = align64 (inOff + ring)
     in outOff + ring)"

section \<open>Rings that share a region\<close>

text \<open>
  \<open>AttachQueuePair\<close> does not compare the extents of the two rings, with each other or with
  the header: their disjointness is what the host's layout promises.
\<close>

definition disjoint_rings :: "QueuePair \<Rightarrow> bool" where
  "disjoint_rings q \<longleftrightarrow>
     qpBytes \<le> ring_base (Inbound q) \<and> qpBytes \<le> ring_base (Outbound q) \<and>
     (ring_end (Inbound q) \<le> ring_base (Outbound q) \<or> ring_end (Outbound q) \<le> ring_base (Inbound q))"

text \<open>A ring does not see changes outside its extent.\<close>

lemma ring_frame:
  assumes g: "geometry_ok r" and agree: "agree_outside lo hi m m'"
    and apart: "ring_end r \<le> lo \<or> hi \<le> ring_base r"
  shows "ring_items m' r = ring_items m r" and "ring_inv m' r \<longleftrightarrow> ring_inv m r"
    and "Count m' r = Count m r" and "get_u64 m' (head_at r) = get_u64 m (head_at r)"
    and "get_u64 m' (tail_at r) = get_u64 m (tail_at r)"
proof -
  have far: "head_at r + 8 \<le> lo \<or> hi \<le> head_at r" "tail_at r + 8 \<le> lo \<or> hi \<le> tail_at r"
    using apart by (auto simp: head_at_def tail_at_def ring_end_def)
  show h: "get_u64 m' (head_at r) = get_u64 m (head_at r)"
    and t: "get_u64 m' (tail_at r) = get_u64 m (tail_at r)"
    using agree_outside_get(3) [OF agree] far by (metis, metis)
  show c: "Count m' r = Count m r" by (simp add: Count_def h t)
  have "slot_bytes m' r i = slot_bytes m r i" for i
    using agree_outside_sub [OF agree, of "slot_offset r i" "unat (slotSize r)"]
      slot_in_range [OF g, of i] apart by (auto simp: slot_bytes_def)
  then show "ring_items m' r = ring_items m r" by (simp add: ring_items_def c t)
  show "ring_inv m' r \<longleftrightarrow> ring_inv m r"
    using agree_outside_length [OF agree] by (simp add: ring_inv_def c)
qed

lemma ring_base_end: "ring_base r + 192 \<le> ring_end r"
  by (simp add: ring_end_def)

lemma agree_ProduceCommit:
  "ring_inv m r \<Longrightarrow> agree_outside (ring_base r) (ring_end r) m (ProduceCommit r m)"
  using ring_base_end [of r]
  by (simp add: ProduceCommit_def ring_inv_def head_at_def agree_outside_put_u64)

lemma agree_ConsumeCommit:
  "ring_inv m r \<Longrightarrow> agree_outside (ring_base r) (ring_end r) m (ConsumeCommit r m)"
  using ring_base_end [of r]
  by (simp add: ConsumeCommit_def ring_inv_def tail_at_def agree_outside_put_u64)

lemma agree_slot:
  assumes "ring_inv m r" and "length x = unat (slotSize r)"
  shows "agree_outside (ring_base r) (ring_end r) m (blit m (slot_offset r i) x)"
  using assms slot_in_range [of r i] by (intro agree_outside_blit) (auto simp: ring_inv_def)

lemma agree_produce:
  assumes inv: "ring_inv m r" and len: "length x = unat (slotSize r)"
    and some: "produce x (m, r) = Some s"
  shows "agree_outside (ring_base r) (ring_end r) m (fst s)"
proof -
  let ?m = "blit m (slot_offset r (get_u64 m (head_at r))) x"
  note a = agree_slot [OF inv len]
  have "fst s = ProduceCommit r ?m"
    using some inv by (auto simp: produce_def ProduceBegin_eq split: if_splits)
  moreover have "length ?m = length m" using agree_outside_length [OF a] by simp
  then have "agree_outside (ring_base r) (ring_end r) ?m (ProduceCommit r ?m)"
    using inv ring_base_end [of r]
    by (simp add: ProduceCommit_def ring_inv_def head_at_def agree_outside_put_u64)
  ultimately show ?thesis using agree_outside_trans [OF a] by metis
qed

lemma align64_unat:
  assumes "unat n + 63 < 2 ^ 64"
  shows "unat (align64 n) = (unat n + 63) div 64 * 64"
proof -
  have mask: "(63 :: u64) = mask 6" by (simp add: mask_eq_exp_minus_1)
  have "(n + 63) AND NOT 63 = push_bit 6 (drop_bit 6 (n + 63))"
    unfolding mask
    by (rule bit_eqI) (auto simp: bit_push_bit_iff bit_drop_bit_eq bit_and_iff bit_not_iff bit_mask_iff
        dest: bit_imp_le_length)
  moreover have n: "unat (n + 63) = unat n + 63"
    using assms by (simp add: unat_word_ariths)
  moreover have "unat (push_bit 6 (drop_bit 6 w)) = unat w div 64 * 64" for w :: u64
  proof -
    have "unat w div 64 * 64 < 2 ^ LENGTH(64)"
      using unat_u64_less [of w] div_times_less_eq_dividend [of "unat w" 64] by simp
    then have "take_bit 64 (push_bit 6 (drop_bit 6 (unat w))) = unat w div 64 * 64"
      by (simp add: take_bit_nat_eq_self push_bit_eq_mult drop_bit_eq_div)
    moreover have "take_bit 64 (unat w) = unat w"
      by (simp add: take_bit_nat_eq_self unat_u64_less)
    ultimately show ?thesis
      by (simp add: unsigned_push_bit_eq unsigned_drop_bit_eq)
  qed
  ultimately show ?thesis by (simp add: align64_def)
qed

lemma qpairBytes_layout:
  fixes slot capv :: u32
  defines "ring \<equiv> 192 + unat slot * unat capv"
  assumes "ring < 2 ^ 62"
  shows "unat (qpairBytes slot capv) = (128 + ring + 63) div 64 * 64 + ring"
proof -
  have small: "unat slot * unat capv < 2 ^ 62" using assms by simp
  have "unat (ucast slot * ucast capv :: u64) = unat slot * unat capv"
    using small by (simp add: unat_word_ariths unat_ucast_u32_u64)
  then have r: "unat (192 + ucast slot * ucast capv :: u64) = ring"
    using small by (simp add: unat_word_ariths ring_def)
  have i: "align64 96 = 128"
    by (rule word_unat_eq_iff [THEN iffD2]) (simp add: align64_unat)
  have o1: "unat (128 + (192 + ucast slot * ucast capv :: u64)) = 128 + ring"
    using assms(2) by (subst unat_add_lem [THEN iffD1]) (simp_all only: r, simp_all)
  have o2: "unat (align64 (128 + (192 + ucast slot * ucast capv))) = (128 + ring + 63) div 64 * 64"
    using assms(2) by (subst align64_unat) (simp_all only: o1, simp_all)
  have "(128 + ring + 63) div 64 * 64 \<le> 128 + ring + 63" by (rule div_times_less_eq_dividend)
  then have fits: "(128 + ring + 63) div 64 * 64 + ring < 2 ^ 64" using assms(2) by simp
  let ?r = "192 + ucast slot * ucast capv :: u64"
  have q: "qpairBytes slot capv = align64 (128 + ?r) + ?r"
    unfolding qpairBytes_def Let_def qpBytes_def ringHdrBytes_def by (simp add: i)
  show ?thesis
    unfolding q using fits by (subst unat_add_lem [THEN iffD1]) (simp_all only: o2 r, simp_all)
qed

section \<open>Attached queue pairs\<close>

lemma AttachQueuePair_Inr:
  "AttachQueuePair mem = Inr q \<longleftrightarrow>
   qpBytes \<le> length mem \<and> get_u32 mem qpOffMagic = qpMagic \<and>
   get_u32 mem qpOffInboundOff \<noteq> get_u32 mem qpOffOutboundOff \<and>
   ring_base (Inbound q) = unat (get_u32 mem qpOffInboundOff) \<and>
   ring_base (Outbound q) = unat (get_u32 mem qpOffOutboundOff) \<and>
   ring_inv mem (Inbound q) \<and> header_matches mem (Inbound q) \<and>
   ring_inv mem (Outbound q) \<and> header_matches mem (Outbound q)"
proof -
  have bind: "bind_sum a f = Inr y \<longleftrightarrow> (\<exists>x. a = Inr x \<and> f x = Inr y)"
    for a :: "err + Ring" and f and y :: QueuePair
    by (cases a) (simp_all add: bind_sum_def)
  have base: "unat off < length mem" if "ring_base r = unat off" and "ring_inv mem r" for off :: u32 and r
    using that ring_base_end [of r] by (simp add: ring_inv_def)
  show ?thesis
    by (cases q) (auto simp: AttachQueuePair_def Let_def bind AttachRing_eq not_less not_le dest: base)
qed

lemma SetHeartbeat_agree:
  "qpBytes \<le> length mem \<Longrightarrow> agree_outside qpOffHeartbeat (qpOffHeartbeat + 8) mem (SetHeartbeat now mem)"
  by (simp add: SetHeartbeat_def agree_outside_put_u64)

text \<open>The pair seen as two queues in one region; which parts each side's steps leave alone.\<close>

definition pair_inv :: "bytes \<Rightarrow> QueuePair \<Rightarrow> bool" where
  "pair_inv mem q \<longleftrightarrow> qpBytes \<le> length mem \<and> disjoint_rings q \<and>
     ring_inv mem (Inbound q) \<and> ring_inv mem (Outbound q)"

lemma AttachQueuePair_pair_inv:
  "AttachQueuePair mem = Inr q \<Longrightarrow> disjoint_rings q \<Longrightarrow> pair_inv mem q"
  by (simp add: AttachQueuePair_Inr pair_inv_def)

lemma ring_inv_geometry: "ring_inv mem r \<Longrightarrow> geometry_ok r"
  by (simp add: ring_inv_def)

lemma pair_inv_ring:
  assumes "pair_inv mem q" and "r = Inbound q \<and> r' = Outbound q \<or> r = Outbound q \<and> r' = Inbound q"
    and "agree_outside (ring_base r) (ring_end r) mem mem'" and "ring_inv mem' r"
  shows "pair_inv mem' q" and "ring_items mem' r' = ring_items mem r'"
    and "ControlLost mem' \<longleftrightarrow> ControlLost mem"
proof -
  have g: "geometry_ok r'" and apart: "ring_end r' \<le> ring_base r \<or> ring_end r \<le> ring_base r'"
    and hdr: "96 \<le> ring_base r"
    using assms(1,2) by (auto simp: pair_inv_def disjoint_rings_def ring_inv_def)
  note frame = ring_frame [OF g assms(3) apart]
  show "ring_items mem' r' = ring_items mem r'" by (rule frame)
  show "pair_inv mem' q"
    using assms frame agree_outside_length [OF assms(3)] by (auto simp: pair_inv_def)
  have "get_u32 mem' 20 = get_u32 mem 20"
    using agree_outside_get(2) [OF assms(3), of 20] hdr by simp
  then show "ControlLost mem' \<longleftrightarrow> ControlLost mem" by (simp add: ControlLost_def)
qed

lemma pair_inv_heartbeat:
  assumes "pair_inv mem q"
  shows "pair_inv (SetHeartbeat now mem) q"
    and "ring_items (SetHeartbeat now mem) (Inbound q) = ring_items mem (Inbound q)"
    and "ring_items (SetHeartbeat now mem) (Outbound q) = ring_items mem (Outbound q)"
    and "ControlLost (SetHeartbeat now mem) \<longleftrightarrow> ControlLost mem"
proof -
  have len: "qpBytes \<le> length mem" using assms by (simp add: pair_inv_def)
  note agree = SetHeartbeat_agree [OF len, of now]
  have far: "qpOffHeartbeat + 8 \<le> ring_base (Inbound q)" "qpOffHeartbeat + 8 \<le> ring_base (Outbound q)"
    and geo: "geometry_ok (Inbound q)" "geometry_ok (Outbound q)"
    using assms by (simp_all add: pair_inv_def disjoint_rings_def ring_inv_def)
  note i = ring_frame [OF geo(1) agree disjI2 [OF far(1)]]
    and o = ring_frame [OF geo(2) agree disjI2 [OF far(2)]]
  show "ring_items (SetHeartbeat now mem) (Inbound q) = ring_items mem (Inbound q)" by (rule i)
  show "ring_items (SetHeartbeat now mem) (Outbound q) = ring_items mem (Outbound q)" by (rule o)
  show "pair_inv (SetHeartbeat now mem) q"
    using assms i o by (simp add: pair_inv_def SetHeartbeat_def)
  show "ControlLost (SetHeartbeat now mem) \<longleftrightarrow> ControlLost mem"
    using len by (simp add: ControlLost_def SetHeartbeat_def layout)
qed

section \<open>Properties\<close>

text \<open>A queue pair as the host lays it out, with two slots of 128 bytes in each ring.\<close>

definition sample_qp :: QueuePair where
  "sample_qp =
    \<lparr>Inbound = \<lparr>ring_base = 128, slotSize = 128, capacity = 2, ring_mask = 1, slotsOff = 192\<rparr>,
     Outbound = \<lparr>ring_base = 576, slotSize = 128, capacity = 2, ring_mask = 1, slotsOff = 192\<rparr>\<rparr>"

definition sample_ring_header :: bytes where
  "sample_ring_header = le32 ringMagic @ le32 128 @ le32 2 @ le32 1 @ le32 192 @ replicate 172 0"

definition sample_qp_mem :: bytes where
  "sample_qp_mem = le32 qpMagic @ replicate 20 0 @ le32 128 @ le32 576 @ replicate 96 0 @
     sample_ring_header @ replicate 256 0 @ sample_ring_header @ replicate 256 0"

lemma get_zeros: "off + 8 \<le> n \<Longrightarrow> get_u64 (replicate n 0) off = 0"
  by (rule get_of_sub) (simp_all add: le64_def, code_simp)
lemma sample_qp_fields:
  "length sample_qp_mem = 1024" "get_u32 sample_qp_mem 0 = qpMagic"
  "get_u32 sample_qp_mem 24 = 128" "get_u32 sample_qp_mem 28 = 576"
  "get_u32 sample_qp_mem 128 = ringMagic" "get_u32 sample_qp_mem 132 = 128"
  "get_u32 sample_qp_mem 136 = 2" "get_u32 sample_qp_mem 140 = 1" "get_u32 sample_qp_mem 144 = 192"
  "get_u64 sample_qp_mem 192 = 0" "get_u64 sample_qp_mem 256 = 0"
  "get_u32 sample_qp_mem 576 = ringMagic" "get_u32 sample_qp_mem 580 = 128"
  "get_u32 sample_qp_mem 584 = 2" "get_u32 sample_qp_mem 588 = 1" "get_u32 sample_qp_mem 592 = 192"
  "get_u64 sample_qp_mem 640 = 0" "get_u64 sample_qp_mem 704 = 0"
  by (simp_all add: sample_qp_mem_def sample_ring_header_def layout get_zeros)

lemma sample_qp_attach: "AttachQueuePair sample_qp_mem = Inr sample_qp"
proof -
  have cap: "\<exists>k\<ge>Suc 0. k < 32 \<and> 2 ^ k = (2 :: u32)" by (rule exI [of _ 1]) simp
  show ?thesis
    by (simp add: AttachQueuePair_Inr sample_qp_def sample_qp_fields ring_inv_def geometry_ok_def
        header_matches_def Count_def head_at_def tail_at_def ring_end_def cap)
qed

lemma sample_qp_disjoint: "disjoint_rings sample_qp"
  by (simp add: disjoint_rings_def sample_qp_def ring_end_def)

text \<open>
  The size \<open>qpairBytes\<close> asks the kernel to map is exactly what the host's layout needs:
  when a queue pair whose rings both have the negotiated geometry attaches at the offsets that
  layout gives, the header and the two rings are pairwise disjoint and the outbound ring ends
  at the last byte of the mapping.
\<close>

lemma qpairBytes_exact:
  fixes slot capv :: u32
  assumes "192 + unat slot * unat capv < 2 ^ 31" and "AttachQueuePair mem = Inr q"
    and "ring_base (Inbound q) = unat (align64 (of_nat qpBytes))"
    and "ring_base (Outbound q) =
      unat (align64 (align64 (of_nat qpBytes) + (of_nat ringHdrBytes + ucast slot * ucast capv)))"
    and "slotSize (Inbound q) = slot" and "capacity (Inbound q) = capv"
    and "slotSize (Outbound q) = slot" and "capacity (Outbound q) = capv"
  shows "disjoint_rings q \<and> ring_end (Inbound q) \<le> ring_base (Outbound q) \<and>
    ring_end (Outbound q) = unat (qpairBytes slot capv)"
proof -
  have i: "align64 96 = 128"
    by (rule word_unat_eq_iff [THEN iffD2]) (simp add: align64_unat)
  have small: "unat slot * unat capv < 2 ^ 62" using assms(1) by simp
  have "unat (ucast slot * ucast capv :: u64) = unat slot * unat capv"
    using small by (simp add: unat_word_ariths unat_ucast_u32_u64)
  then have "unat (320 + ucast slot * ucast capv :: u64) = 320 + unat slot * unat capv"
    using small by (simp add: unat_word_ariths)
  then have "ring_base (Outbound q) = (128 + (192 + unat slot * unat capv) + 63) div 64 * 64"
    using assms(4) small by (simp add: i align64_unat)
  moreover have "n \<le> (n + 63) div 64 * 64" for n :: nat
    using div_mult_mod_eq [of "n + 63" 64] mod_less_divisor [of 64 "n + 63"] by linarith
  ultimately show ?thesis
    using assms(1,3,5-8) qpairBytes_layout [of slot capv]
    by (auto simp: disjoint_rings_def ring_end_def i)
qed

lemma sample_qp_extent: "ring_end (Outbound sample_qp) = unat (qpairBytes 128 2)"
proof -
  have i: "align64 96 = 128" "align64 576 = 576"
    by (rule word_unat_eq_iff [THEN iffD2], simp add: align64_unat)+
  have "192 + unat (128 :: u32) * unat (2 :: u32) < 2 ^ 31" by simp
  from qpairBytes_exact [OF this sample_qp_attach] show ?thesis
    by (simp add: sample_qp_def i)
qed

text \<open>
  C18. The pair's parts do not interfere: with the header and the two rings apart, writing the
  heartbeat changes neither queue, committing a filled slot on the outbound ring leaves the
  inbound queue as it was, consuming from the inbound ring leaves the outbound queue as it
  was, and no such step changes the control-lost flag.
\<close>

theorem queue_pair_isolation:
  assumes "AttachQueuePair mem = Inr q" and "disjoint_rings q"
    and "length x = unat (slotSize (Outbound q))"
  shows "(let mem' = SetHeartbeat now mem in
      ring_items mem' (Inbound q) = ring_items mem (Inbound q) \<and>
      ring_items mem' (Outbound q) = ring_items mem (Outbound q) \<and>
      ControlLost mem' = ControlLost mem) \<and>
    (case produce x (mem, Outbound q) of None \<Rightarrow> True
     | Some (mem', _) \<Rightarrow> ring_items mem' (Inbound q) = ring_items mem (Inbound q) \<and>
        ControlLost mem' = ControlLost mem) \<and>
    (if ring_items mem (Inbound q) = [] then True
     else let mem' = ConsumeCommit (Inbound q) mem in
        ring_items mem' (Outbound q) = ring_items mem (Outbound q) \<and>
        ControlLost mem' = ControlLost mem)"
proof (intro conjI)
  note inv = AttachQueuePair_pair_inv [OF assms(1,2)]
  have out: "ring_inv mem (Outbound q)" and inb: "ring_inv mem (Inbound q)"
    using inv by (simp_all add: pair_inv_def)
  show "let mem' = SetHeartbeat now mem in
      ring_items mem' (Inbound q) = ring_items mem (Inbound q) \<and>
      ring_items mem' (Outbound q) = ring_items mem (Outbound q) \<and>
      ControlLost mem' = ControlLost mem"
    by (simp add: Let_def pair_inv_heartbeat [OF inv])
  show "case produce x (mem, Outbound q) of None \<Rightarrow> True
     | Some (mem', _) \<Rightarrow> ring_items mem' (Inbound q) = ring_items mem (Inbound q) \<and>
        ControlLost mem' = ControlLost mem"
  proof (cases "produce x (mem, Outbound q)")
    case (Some s)
    have "agree_outside (ring_base (Outbound q)) (ring_end (Outbound q)) mem (fst s)"
      using agree_produce [OF out assms(3) Some] .
    with produce_Some [OF out assms(3) Some] pair_inv_ring [OF inv, of "Outbound q" "Inbound q" "fst s"]
    show ?thesis using Some by (cases s) simp
  qed simp
  show "if ring_items mem (Inbound q) = [] then True
     else let mem' = ConsumeCommit (Inbound q) mem in
        ring_items mem' (Outbound q) = ring_items mem (Outbound q) \<and>
        ControlLost mem' = ControlLost mem"
    using pair_inv_ring [OF inv _ agree_ConsumeCommit [OF inb], of "Outbound q"]
      ConsumeCommit_items(2) [OF inb] by (simp add: Let_def ring_items_Nil)
qed

theorem queue_pair_isolation_witness:
  "ring_items (SetHeartbeat 5 sample_qp_mem) (Inbound sample_qp) = ring_items sample_qp_mem (Inbound sample_qp)"
proof -
  have "length (replicate 128 (1 :: byte)) = unat (slotSize (Outbound sample_qp))"
    by (simp add: sample_qp_def)
  from queue_pair_isolation [OF sample_qp_attach sample_qp_disjoint this, of 5]
  show ?thesis unfolding Let_def by blast
qed

end
