(* ===== verification/Client.thy ===== *)
theory Client
  imports Wire Region
begin

text \<open>
  The attached client, \<^verbatim>\<open>server-go/bus/client.go\<close>: the attach handshake with its descriptors
  and mappings, emit and its six callers, and Poll. The client state holds the mapped bytes;
  a mapping that is nil or unmapped is \<open>None\<close>, and touching it ends the process (\<open>Crash\<close>), as
  does a slice expression out of range. What the host writes concurrently is covered by the
  operations being defined on arbitrary bytes and by \<open>Ring_Interleaving\<close>.
  Proved here: attach leaks neither descriptor nor mapping on any path; emit appends exactly
  one decodable slot or changes nothing; Poll hands out every item once and in order.
\<close>

section \<open>State\<close>

definition attachReqMagic :: u32 where [simp]: "attachReqMagic = 0x51524241"
definition attachReplyMagic :: u32 where [simp]: "attachReplyMagic = 0x50524241"
definition attachReqBytes :: nat where [simp]: "attachReqBytes = 16"
definition attachReplyBytes :: nat where [simp]: "attachReplyBytes = 48"

type_synonym AttachStatus = u32

definition AttachOK :: AttachStatus where [simp]: "AttachOK = 0"
definition AttachDeniedPolicy :: AttachStatus where [simp]: "AttachDeniedPolicy = 1"
definition AttachDeniedVersion :: AttachStatus where [simp]: "AttachDeniedVersion = 2"
definition AttachDeniedNoSlot :: AttachStatus where [simp]: "AttachDeniedNoSlot = 3"
definition AttachProtocol :: AttachStatus where [simp]: "AttachProtocol = 4"

text \<open>
  The fields carry the prefix \<open>c_\<close>, since several share their name with a ring's or a
  message's. \<open>c_control\<close> says that the control view is set; the bytes it reads are
  \<open>c_ctlMem\<close>. In the same way the queue pair's views read and write \<open>c_qpMem\<close>.
\<close>

record Client =
  c_handle :: u32
  c_status :: AttachStatus
  c_slotSize :: u32
  c_inlineBudget :: u32
  c_queueCapacity :: u32
  c_arenaSize :: u64
  c_attachedEpoch :: u64
  c_control :: bool
  c_qp :: "QueuePair option"
  c_arena :: "bytes option"
  c_ctlMem :: "bytes option"
  c_qpMem :: "bytes option"
  c_pendingRead :: bool

definition zero_Client :: Client where
  "zero_Client = \<lparr>c_handle = 0, c_status = 0, c_slotSize = 0, c_inlineBudget = 0,
     c_queueCapacity = 0, c_arenaSize = 0, c_attachedEpoch = 0, c_control = False, c_qp = None,
     c_arena = None, c_ctlMem = None, c_qpMem = None, c_pendingRead = False\<rparr>"

text \<open>\<open>Payload\<close> is the content of the slice at the time Poll returns it.\<close>

record Event =
  EventFrame :: Frame
  Payload :: bytes

section \<open>Sending and receiving\<close>

definition EpochChanged :: "Client \<Rightarrow> bool outcome" where
  "EpochChanged c =
    (if \<not> c_control c then Ret False
     else case c_ctlMem c of
       None \<Rightarrow> Crash
     | Some mem \<Rightarrow> Ret (Control_Epoch mem \<noteq> c_attachedEpoch c))"

text \<open>A method call on the queue pair: nil, or a view on memory that is gone, ends the process.\<close>

definition queue_pair :: "Client \<Rightarrow> (QueuePair \<times> bytes) outcome" where
  "queue_pair c =
    (case (c_qp c, c_qpMem c) of (Some q, Some mem) \<Rightarrow> Ret (q, mem) | _ \<Rightarrow> Crash)"

definition Heartbeat :: "u64 \<Rightarrow> Client \<Rightarrow> Client outcome" where
  "Heartbeat now c =
    obind (queue_pair c) (\<lambda>(q, mem). Ret (c\<lparr>c_qpMem := Some (SetHeartbeat now mem)\<rparr>))"

definition Client_ControlLost :: "Client \<Rightarrow> bool outcome" where
  "Client_ControlLost c = obind (queue_pair c) (\<lambda>(q, mem). Ret (ControlLost mem))"

definition emit_frame :: "u16 \<Rightarrow> u32 \<Rightarrow> u64 \<Rightarrow> bytes \<Rightarrow> u32 \<Rightarrow> Frame" where
  "emit_frame flags kind corr payload handle =
    (let f = zero_Frame\<lparr>HdrFlags := flags, FrameVersion := WireVersion, EventKind := kind,
               CorrelationID := corr, SrcHandle := handle\<rparr>
     in if 0 < length payload
        then f\<lparr>HdrFlags := HdrFlags f OR FInline, PayloadLen := of_nat (length payload),
               PayloadRef := of_nat HdrLen\<rparr>
        else f)"

definition emit :: "u16 \<Rightarrow> u32 \<Rightarrow> u64 \<Rightarrow> bytes \<Rightarrow> Client \<Rightarrow> (err option \<times> Client) outcome" where
  "emit flags kind corr payload c =
    (if \<not> c_control c then Ret (Some ErrProtocol, c)
     else if 0 < length payload \<and>
       (of_nat (length payload) > c_inlineBudget c \<or> HdrLen + length payload > unat (c_slotSize c))
     then Ret (Some ErrPayload, c)
     else obind (EpochChanged c) (\<lambda>changed.
       if changed then Ret (Some ErrEpoch, c)
       else obind (queue_pair c) (\<lambda>(q, mem).
         case ProduceBegin mem (Outbound q) of
           SlotPanic \<Rightarrow> Crash
         | NilSlot \<Rightarrow> Ret (Some ErrWouldBlock, c)
         | SlotAt off \<Rightarrow>
             (let size = unat (slotSize (Outbound q));
                  f = emit_frame flags kind corr payload (c_handle c);
                  (n, slot) = Encode f (sub mem off size);
                  mem = blit mem off slot
              in if n \<noteq> HdrLen then Ret (Some ErrProtocol, c\<lparr>c_qpMem := Some mem\<rparr>)
                 else
                   (let mem = blit mem (off + HdrLen) (take (size - HdrLen) payload);
                        mem = ProduceCommit (Outbound q) mem
                    in Ret (None, c\<lparr>c_qpMem := Some mem\<rparr>))))))"

definition Publish :: "u32 \<Rightarrow> bytes \<Rightarrow> Client \<Rightarrow> (err option \<times> Client) outcome" where
  "Publish kind payload c = emit FNotification kind 0 payload c"

definition send_fragment ::
    "u16 \<Rightarrow> u32 \<Rightarrow> u64 \<Rightarrow> bytes \<Rightarrow> bool \<Rightarrow> Client \<Rightarrow> (err option \<times> Client) outcome" where
  "send_fragment pat kind correlation payload frag c =
    (if correlation = 0 then Ret (Some ErrProtocol, c)
     else if frag then
       (if length payload = 0 then Ret (Some ErrProtocol, c)
        else emit (pat OR FMore) kind correlation payload c)
     else emit pat kind correlation payload c)"

definition RequestFragment ::
    "u32 \<Rightarrow> u64 \<Rightarrow> bytes \<Rightarrow> bool \<Rightarrow> Client \<Rightarrow> (err option \<times> Client) outcome" where
  "RequestFragment kind correlation payload frag c =
     send_fragment FRequest kind correlation payload frag c"

definition Request :: "u32 \<Rightarrow> u64 \<Rightarrow> bytes \<Rightarrow> Client \<Rightarrow> (err option \<times> Client) outcome" where
  "Request kind correlation payload c = RequestFragment kind correlation payload False c"

definition ReplyFragment ::
    "u32 \<Rightarrow> u64 \<Rightarrow> bytes \<Rightarrow> bool \<Rightarrow> Client \<Rightarrow> (err option \<times> Client) outcome" where
  "ReplyFragment kind correlation payload frag c =
     send_fragment FReply kind correlation payload frag c"

definition Reply :: "u32 \<Rightarrow> u64 \<Rightarrow> bytes \<Rightarrow> Client \<Rightarrow> (err option \<times> Client) outcome" where
  "Reply kind correlation payload c = ReplyFragment kind correlation payload False c"

definition Cancel :: "u32 \<Rightarrow> u64 \<Rightarrow> Client \<Rightarrow> (err option \<times> Client) outcome" where
  "Cancel kind correlation c =
    (if correlation = 0 then Ret (Some ErrProtocol, c) else emit FCancel kind correlation [] c)"

text \<open>
  \<open>Poll\<close> returns an event, no event, or an error. The payload expression slices the slot at
  64-bit offsets: it is in range when the bounds are ordered and the upper one is within the
  slice's capacity, which reaches to the end of the mapping.
\<close>

definition poll_payload :: "Client \<Rightarrow> bytes \<Rightarrow> nat \<Rightarrow> Frame \<Rightarrow> bytes outcome" where
  "poll_payload c mem off f =
    (if HdrFlags f AND FInline \<noteq> 0 \<and> PayloadLen f > 0 \<and>
        PayloadRef f + ucast (PayloadLen f) \<le> ucast (c_slotSize c)
     then
       (let lo = unat (PayloadRef f); hi = unat (PayloadRef f + ucast (PayloadLen f))
        in if lo \<le> hi \<and> off + hi \<le> length mem then Ret (sub mem (off + lo) (hi - lo)) else Crash)
     else Ret [])"

definition poll_slot :: "Client \<Rightarrow> QueuePair \<Rightarrow> bytes \<Rightarrow> ((err + Event option) \<times> Client) outcome" where
  "poll_slot c q mem =
    (case ConsumeBegin mem (Inbound q) of
       SlotPanic \<Rightarrow> Crash
     | NilSlot \<Rightarrow> Ret (Inr None, c)
     | SlotAt off \<Rightarrow>
         (case Decode (sub mem off (unat (slotSize (Inbound q)))) zero_Frame of
            (OK, f) \<Rightarrow>
              obind (poll_payload c mem off f) (\<lambda>payload.
                Ret (Inr (Some \<lparr>EventFrame = f, Payload = payload\<rparr>), c\<lparr>c_pendingRead := True\<rparr>))
          | _ \<Rightarrow> Ret (Inr None, c\<lparr>c_qpMem := Some (ConsumeCommit (Inbound q) mem)\<rparr>)))"

definition Poll :: "Client \<Rightarrow> ((err + Event option) \<times> Client) outcome" where
  "Poll c =
    (if \<not> c_control c then Ret (Inl ErrProtocol, c)
     else obind (EpochChanged c) (\<lambda>changed.
       if changed then Ret (Inl ErrEpoch, c)
       else obind (queue_pair c) (\<lambda>(q, mem).
         let mem = (if c_pendingRead c then ConsumeCommit (Inbound q) mem else mem)
         in poll_slot (c\<lparr>c_qpMem := Some mem, c_pendingRead := False\<rparr>) q mem)))"

section \<open>Attaching and detaching\<close>

text \<open>
  The system calls and the control-message parsers of \<^verbatim>\<open>golang.org/x/sys/unix\<close> are not under
  \<^verbatim>\<open>src/\<close>: they are the record \<open>kernel\<close>, which every attach operation takes as a parameter.
  What an attach does to the process' resources is the list of its effects, in order.
\<close>

record cmsg =
  cmsg_level :: int
  cmsg_type :: int
  cmsg_data :: bytes

record kernel =
  sendmsg :: "bytes \<Rightarrow> err option"
  recvmsg :: "err + nat \<times> bytes \<times> bytes"
  ParseSocketControlMessage :: "bytes \<Rightarrow> err + cmsg list"
  ParseUnixRights :: "cmsg \<Rightarrow> err + int list"
  SOL_SOCKET :: int
  SCM_RIGHTS :: int
  mmap :: "int \<Rightarrow> u64 \<Rightarrow> err + bytes"

datatype mapping = ControlMap | ArenaMap | QueueMap

datatype effect = Sent bytes | ClosedFd int | Mapped mapping | Unmapped mapping

definition parseRights :: "kernel \<Rightarrow> bytes \<Rightarrow> int list" where
  "parseRights k oob =
    (if length oob = 0 then []
     else case ParseSocketControlMessage k oob of
       Inl _ \<Rightarrow> []
     | Inr msgs \<Rightarrow>
         concat (map (\<lambda>m.
           if cmsg_level m = SOL_SOCKET k \<and> cmsg_type m = SCM_RIGHTS k
           then (case ParseUnixRights k m of Inl _ \<Rightarrow> [] | Inr f \<Rightarrow> f)
           else []) msgs))"

definition Detach :: "Client \<Rightarrow> Client \<times> effect list" where
  "Detach c =
    (c\<lparr>c_ctlMem := None, c_arena := None, c_qpMem := None\<rparr>,
     (if c_ctlMem c \<noteq> None then [Unmapped ControlMap] else []) @
     (if c_arena c \<noteq> None then [Unmapped ArenaMap] else []) @
     (if c_qpMem c \<noteq> None then [Unmapped QueueMap] else []))"

definition attach_request :: "u32 \<Rightarrow> u32 \<Rightarrow> bytes" where
  "attach_request principalClass principalRef =
    put_u32 12 principalRef (put_u32 8 principalClass (put_u16 6 WireVersion
      (put_u16 4 WireVersion (put_u32 0 attachReqMagic (replicate attachReqBytes 0)))))"

definition attach_reply_client :: "bytes \<Rightarrow> Client" where
  "attach_reply_client replyBuf =
    zero_Client\<lparr>c_status := get_u32 replyBuf 4, c_handle := get_u32 replyBuf 8,
      c_slotSize := get_u32 replyBuf 16, c_inlineBudget := get_u32 replyBuf 20,
      c_queueCapacity := get_u32 replyBuf 24, c_arenaSize := get_u64 replyBuf 32,
      c_attachedEpoch := get_u64 replyBuf 40\<rparr>"

text \<open>The steps after the three mappings, and the mappings themselves.\<close>

definition attach_views ::
    "Client \<Rightarrow> bytes \<Rightarrow> bytes \<Rightarrow> bytes \<Rightarrow> (Client option \<times> err option) \<times> effect list" where
  "attach_views c ctlMem arena qpMem =
    (let c = c\<lparr>c_ctlMem := Some ctlMem, c_arena := Some arena, c_qpMem := Some qpMem\<rparr>
     in case AttachControl ctlMem of
          Inl e \<Rightarrow> ((None, Some e), snd (Detach c))
        | Inr _ \<Rightarrow>
            (let c = c\<lparr>c_control := True\<rparr>
             in case AttachQueuePair qpMem of
                  Inl e \<Rightarrow> ((None, Some e), snd (Detach c))
                | Inr q \<Rightarrow> ((Some (c\<lparr>c_qp := Some q\<rparr>), None), [])))"

definition attach_maps ::
    "kernel \<Rightarrow> int list \<Rightarrow> Client \<Rightarrow> (Client option \<times> err option) \<times> effect list" where
  "attach_maps k fds c =
    (let closeAll = map ClosedFd fds
     in case mmap k (fds ! 0) (of_nat ctlBytes) of
          Inl e \<Rightarrow> ((None, Some e), closeAll)
        | Inr ctlMem \<Rightarrow>
            (case mmap k (fds ! 1) (16 + c_arenaSize c) of
               Inl e \<Rightarrow> ((None, Some e), [Mapped ControlMap, Unmapped ControlMap] @ closeAll)
             | Inr arena \<Rightarrow>
                 (case mmap k (fds ! 2) (qpairBytes (c_slotSize c) (c_queueCapacity c)) of
                    Inl e \<Rightarrow> ((None, Some e),
                      [Mapped ControlMap, Mapped ArenaMap, Unmapped ControlMap, Unmapped ArenaMap]
                        @ closeAll)
                  | Inr qpMem \<Rightarrow>
                      (let (r, effects) = attach_views c ctlMem arena qpMem
                       in (r, [Mapped ControlMap, Mapped ArenaMap, Mapped QueueMap] @ closeAll
                              @ effects)))))"

definition AttachAs ::
    "kernel \<Rightarrow> u32 \<Rightarrow> u32 \<Rightarrow> (Client option \<times> err option) \<times> effect list" where
  "AttachAs k principalClass principalRef =
    (let req = attach_request principalClass principalRef
     in case sendmsg k req of
          Some e \<Rightarrow> ((None, Some e), [])
        | None \<Rightarrow>
            (case recvmsg k of
               Inl e \<Rightarrow> ((None, Some e), [Sent req])
             | Inr (n, replyBuf, oob) \<Rightarrow>
                 (let fds = parseRights k oob;
                      closeAll = map ClosedFd fds
                  in if n \<noteq> attachReplyBytes \<or> get_u32 replyBuf 0 \<noteq> attachReplyMagic
                     then ((None, Some ErrProtocol), Sent req # closeAll)
                     else if get_u32 replyBuf 4 \<noteq> AttachOK
                     then ((Some (zero_Client\<lparr>c_status := get_u32 replyBuf 4\<rparr>), Some ErrDenied),
                           Sent req # closeAll)
                     else if length fds \<noteq> 3 then ((None, Some ErrProtocol), Sent req # closeAll)
                     else
                       (let (r, effects) = attach_maps k fds (attach_reply_client replyBuf)
                        in (r, Sent req # effects)))))"

definition Attach :: "kernel \<Rightarrow> (Client option \<times> err option) \<times> effect list" where
  "Attach k = AttachAs k 0 0"

section \<open>Resources\<close>

text \<open>The mappings a trace of effects leaves in place, and the descriptors it closed.\<close>

fun held :: "mapping list \<Rightarrow> effect list \<Rightarrow> mapping list" where
  "held ms [] = ms"
| "held ms (Mapped m # es) = held (m # ms) es"
| "held ms (Unmapped m # es) = held (remove1 m ms) es"
| "held ms (_ # es) = held ms es"

fun closed_fds :: "effect list \<Rightarrow> int list" where
  "closed_fds [] = []"
| "closed_fds (ClosedFd fd # es) = fd # closed_fds es"
| "closed_fds (_ # es) = closed_fds es"

lemma held_append [simp]: "held ms (es @ es') = held (held ms es) es'"
  by (induction ms es rule: held.induct) simp_all

lemma closed_fds_append [simp]: "closed_fds (es @ es') = closed_fds es @ closed_fds es'"
  by (induction es rule: closed_fds.induct) simp_all

lemma closed_closeAll [simp]: "closed_fds (map ClosedFd fds) = fds" "held ms (map ClosedFd fds) = ms"
  by (induction fds) simp_all

definition client_maps :: "Client \<Rightarrow> mapping list" where
  "client_maps c = (if c_qpMem c \<noteq> None then [QueueMap] else []) @
     (if c_arena c \<noteq> None then [ArenaMap] else []) @
     (if c_ctlMem c \<noteq> None then [ControlMap] else [])"

lemma Detach_effects:
  "held (client_maps c) (snd (Detach c)) = []" "closed_fds (snd (Detach c)) = []"
  "client_maps (fst (Detach c)) = []" "snd (Detach (fst (Detach c))) = []"
  by (simp_all add: Detach_def client_maps_def)

lemma attach_views_effects:
  "attach_views c ctlMem arena qpMem = ((r, e), es) \<Longrightarrow>
   closed_fds es = [] \<and>
   (case (r, e) of
      (Some c', None) \<Rightarrow> es = [] \<and> client_maps c' = [QueueMap, ArenaMap, ControlMap]
    | (None, Some _) \<Rightarrow> held [QueueMap, ArenaMap, ControlMap] es = []
    | _ \<Rightarrow> False)"
  by (auto simp: attach_views_def Let_def Detach_def client_maps_def split: sum.splits)

lemma attach_maps_effects:
  assumes "attach_maps k fds c = ((r, e), es)"
  shows "closed_fds es = fds \<and>
    (case (r, e) of
      (Some c', None) \<Rightarrow> held [] es = client_maps c'
    | (None, Some _) \<Rightarrow> held [] es = []
    | _ \<Rightarrow> False)"
proof (cases "mmap k (fds ! 0) (of_nat ctlBytes)")
  case (Inl e)
  then show ?thesis using assms by (auto simp: attach_maps_def)
next
  case ctl: (Inr ctlMem)
  show ?thesis
  proof (cases "mmap k (fds ! 1) (16 + c_arenaSize c)")
    case (Inl e)
    then show ?thesis using assms ctl by (auto simp: attach_maps_def)
  next
    case arena: (Inr arena)
    show ?thesis
    proof (cases "mmap k (fds ! 2) (qpairBytes (c_slotSize c) (c_queueCapacity c))")
      case (Inl e)
      then show ?thesis using assms ctl arena by (auto simp: attach_maps_def)
    next
      case qp: (Inr qpMem)
      obtain r' e' es' where views: "attach_views c ctlMem arena qpMem = ((r', e'), es')"
        by (metis surj_pair)
      with assms ctl arena qp have "r = r'" "e = e'"
        "es = Mapped ControlMap # Mapped ArenaMap # Mapped QueueMap # map ClosedFd fds @ es'"
        by (simp_all add: attach_maps_def)
      with attach_views_effects [OF views] show ?thesis
        by (auto split: option.splits)
    qed
  qed
qed

lemma AttachAs_after_reply:
  assumes "sendmsg k (attach_request cls ref) = None"
    and "recvmsg k = Inr (n, replyBuf, oob)" and "AttachAs k cls ref = ((r, e), es)"
  shows "closed_fds es = parseRights k oob \<and>
    (case (r, e) of
      (Some c, None) \<Rightarrow> held [] es = client_maps c
    | (Some c, Some e) \<Rightarrow> e = ErrDenied \<and> held [] es = [] \<and> client_maps c = []
    | (None, Some _) \<Rightarrow> held [] es = []
    | _ \<Rightarrow> False)"
proof (cases "n = attachReplyBytes \<and> get_u32 replyBuf 0 = attachReplyMagic \<and>
    get_u32 replyBuf 4 = AttachOK \<and> length (parseRights k oob) = 3")
  case True
  obtain r' e' es' where maps:
    "attach_maps k (parseRights k oob) (attach_reply_client replyBuf) = ((r', e'), es')"
    by (metis surj_pair)
  with True assms have "r = r'" "e = e'" "es = Sent (attach_request cls ref) # es'"
    by (simp_all add: AttachAs_def)
  with attach_maps_effects [OF maps] show ?thesis
    by (auto split: option.splits)
next
  case False
  then show ?thesis
    using assms by (auto simp: AttachAs_def Let_def client_maps_def zero_Client_def split: if_splits)
qed

section \<open>Invariant and content\<close>

text \<open>
  \<open>unread\<close> is what Poll has still to hand out: the event handed out last stays in the ring
  until the next Poll. The invariant asks what the host promises and no attach check
  compares: both rings have the negotiated slot size and do not overlap.
\<close>

definition the_qp :: "Client \<Rightarrow> QueuePair" where "the_qp c = the (c_qp c)"
definition the_mem :: "Client \<Rightarrow> bytes" where "the_mem c = the (c_qpMem c)"

definition outbound :: "Client \<Rightarrow> bytes list" where
  "outbound c = ring_items (the_mem c) (Outbound (the_qp c))"

definition unread :: "Client \<Rightarrow> bytes list" where
  "unread c =
    (let items = ring_items (the_mem c) (Inbound (the_qp c)) in if c_pendingRead c then tl items else items)"

definition client_inv :: "Client \<Rightarrow> bool" where
  "client_inv c \<longleftrightarrow> c_control c \<and> c_ctlMem c \<noteq> None \<and> c_qp c \<noteq> None \<and> c_qpMem c \<noteq> None \<and>
     pair_inv (the_mem c) (the_qp c) \<and>
     slotSize (Inbound (the_qp c)) = c_slotSize c \<and> slotSize (Outbound (the_qp c)) = c_slotSize c \<and>
     (c_pendingRead c \<longrightarrow> ring_items (the_mem c) (Inbound (the_qp c)) \<noteq> [])"

definition same_epoch :: "Client \<Rightarrow> bool" where
  "same_epoch c \<longleftrightarrow> Control_Epoch (the (c_ctlMem c)) = c_attachedEpoch c"

lemma client_access:
  assumes "client_inv c"
  shows "EpochChanged c = Ret (\<not> same_epoch c)" and "queue_pair c = Ret (the_qp c, the_mem c)"
    and "c_control c" and "c\<lparr>c_qpMem := Some (the_mem c)\<rparr> = c"
  using assms by (auto simp: client_inv_def EpochChanged_def queue_pair_def same_epoch_def
      the_qp_def the_mem_def)

lemma update_mem [simp]:
  "the_qp (c\<lparr>c_qpMem := Some m\<rparr>) = the_qp c" "the_mem (c\<lparr>c_qpMem := Some m\<rparr>) = m"
  "the_qp (c\<lparr>c_pendingRead := b\<rparr>) = the_qp c" "the_mem (c\<lparr>c_pendingRead := b\<rparr>) = the_mem c"
  by (simp_all add: the_qp_def the_mem_def)

lemma client_inv_update:
  "client_inv c \<Longrightarrow> pair_inv m (the_qp c) \<Longrightarrow>
   (b \<Longrightarrow> ring_items m (Inbound (the_qp c)) \<noteq> []) \<Longrightarrow>
   client_inv (c\<lparr>c_qpMem := Some m, c_pendingRead := b\<rparr>)"
  by (simp add: client_inv_def the_qp_def the_mem_def)

section \<open>Emit\<close>

definition emit_result :: "u16 \<Rightarrow> u32 \<Rightarrow> u64 \<Rightarrow> bytes \<Rightarrow> Client \<Rightarrow> err option" where
  "emit_result flags kind corr payload c =
    (if payload \<noteq> [] \<and> (of_nat (length payload) > c_inlineBudget c \<or>
          64 + length payload > unat (c_slotSize c)) then Some ErrPayload
     else if \<not> same_epoch c then Some ErrEpoch
     else if length (outbound c) = unat (capacity (Outbound (the_qp c))) then Some ErrWouldBlock
     else if unat (c_slotSize c) < 64 \<or>
          Validate (emit_frame flags kind corr payload (c_handle c)) \<noteq> OK then Some ErrProtocol
     else None)"

definition slot_holds :: "bytes \<Rightarrow> Frame \<Rightarrow> bytes \<Rightarrow> bool" where
  "slot_holds slot f payload \<longleftrightarrow>
     Validate f = OK \<and> take (64 + length payload) slot = frame_bytes f @ payload"

lemma slot_holds_Decode:
  "slot_holds slot f payload \<Longrightarrow> Decode slot g = (OK, f) \<and> sub slot 64 (length payload) = payload"
proof -
  assume h: "slot_holds slot f payload"
  then have slot: "slot = frame_bytes f @ payload @ drop (64 + length payload) slot"
    by (metis append_assoc append_take_drop_id slot_holds_def)
  from h have "Decode slot g = (OK, f)"
    by (subst slot) (simp add: Decode_frame_bytes slot_holds_def)
  moreover have "sub slot 64 (length payload) = payload"
    by (subst slot) (simp add: sub_def)
  ultimately show ?thesis by simp
qed

lemma emit_writes:
  fixes flags :: u16 and kind :: u32 and corr :: u64
  assumes inv: "client_inv c" and none: "emit_result flags kind corr payload c = None"
  defines "f \<equiv> emit_frame flags kind corr payload (c_handle c)"
  shows "\<exists>mem slot. emit flags kind corr payload c = Ret (None, c\<lparr>c_qpMem := Some mem\<rparr>) \<and>
    pair_inv mem (the_qp c) \<and>
    ring_items mem (Inbound (the_qp c)) = ring_items (the_mem c) (Inbound (the_qp c)) \<and>
    ring_items mem (Outbound (the_qp c)) = outbound c @ [slot] \<and> slot_holds slot f payload"
proof -
  define q m r where "q = the_qp c" and "m = the_mem c" and "r = Outbound q"
  define off size where "off = slot_offset r (get_u64 m (head_at r))" and "size = unat (slotSize r)"
  have pair: "pair_inv m q" and ri: "ring_inv m r" and sz: "size = unat (c_slotSize c)"
    using inv by (simp_all add: client_inv_def q_def m_def r_def pair_inv_def size_def)
  from none have room: "length (ring_items m r) \<noteq> unat (capacity r)" and valid: "Validate f = OK"
    and big: "64 \<le> size" and fits: "payload = [] \<or> 64 + length payload \<le> size"
    and guard: "\<not> (0 < length payload \<and> (of_nat (length payload) > c_inlineBudget c \<or>
        HdrLen + length payload > unat (c_slotSize c)))" and ep: "same_epoch c"
    by (auto simp: emit_result_def outbound_def q_def m_def r_def f_def sz not_less split: if_splits)
  have bound: "off + size \<le> length m" "off + size \<le> ring_end r" "ring_base r + 192 \<le> off"
    using ri slot_in_range [of r] by (auto simp: ring_inv_def off_def size_def intro: order_trans)
  define old where "old = sub m off size"
  have old: "length old = size" using bound by (simp add: old_def)
  define slot where "slot = frame_bytes f @ payload @ drop (64 + length payload) old"
  have slot: "length slot = size" using old big fits by (auto simp: slot_def)
  define mem1 where "mem1 = blit (blit m off (frame_bytes f @ drop 64 old)) (off + 64) (take (size - 64) payload)"
  have mem1: "mem1 = blit m off slot"
  proof -
    have "take (size - 64) payload = payload" using fits by auto
    then show ?thesis
      unfolding mem1_def slot_def using bound old big fits
        blit_blit [of off "frame_bytes f" "drop 64 old" m payload]
      by (simp add: add.commute)
  qed
  have agree: "agree_outside off (off + size) m mem1"
    unfolding mem1 using bound slot by (simp add: agree_outside_blit)
  then have wr: "slot_write r m mem1" by (simp add: slot_write_def off_def size_def)
  have sub1: "sub mem1 off size = slot"
    using bound slot by (simp add: mem1 sub_blit_same)
  note pc = produce_commit [OF ri room wr, folded off_def size_def, unfolded sub1]
  have len: "length mem1 = length m" using agree_outside_length [OF agree] by simp
  have "agree_outside (ring_base r) (ring_end r) m mem1"
    using agree bound by (auto intro: agree_outside_mono)
  moreover have "agree_outside (ring_base r) (ring_end r) mem1 (ProduceCommit r mem1)"
    using ri ring_base_end [of r]
    by (simp add: ProduceCommit_def ring_inv_def head_at_def agree_outside_put_u64 len)
  ultimately have "agree_outside (ring_base r) (ring_end r) m (ProduceCommit r mem1)"
    by (rule agree_outside_trans)
  note pi = pair_inv_ring [OF pair _ this, of "Inbound q"]
  have "ProduceBegin m r = SlotAt off"
    using ProduceBegin_eq [OF ri] room by (simp add: off_def)
  then have "emit flags kind corr payload c = Ret (None, c\<lparr>c_qpMem := Some (ProduceCommit r mem1)\<rparr>)"
    using client_access [OF inv] guard ep big valid old
    by (simp add: emit_def q_def [symmetric] m_def [symmetric] r_def [symmetric] size_def [symmetric]
        f_def [symmetric] old_def [symmetric] Encode_layout mem1_def del: length_greater_0_conv)
  moreover have "slot_holds slot f payload"
    using valid by (simp add: slot_holds_def slot_def)
  ultimately show ?thesis
    using pi pc by (auto simp: q_def [symmetric] m_def [symmetric] r_def [symmetric] outbound_def)
qed

lemma emit_refuses:
  assumes inv: "client_inv c" and some: "emit_result flags kind corr payload c = Some e"
  shows "emit flags kind corr payload c = Ret (Some e, c)"
proof -
  let ?q = "the_qp c" and ?m = "the_mem c"
  let ?r = "Outbound ?q" and ?f = "emit_frame flags kind corr payload (c_handle c)"
  let ?off = "slot_offset ?r (get_u64 ?m (head_at ?r))" and ?size = "unat (slotSize ?r)"
  define large where "large \<longleftrightarrow> 0 < length payload \<and> (of_nat (length payload) > c_inlineBudget c \<or>
        HdrLen + length payload > unat (c_slotSize c))"
  define full where "full \<longleftrightarrow> length (outbound c) = unat (capacity ?r)"
  note acc = client_access [OF inv]
  have ri: "ring_inv ?m ?r" and sz: "slotSize ?r = c_slotSize c"
    using inv by (simp_all add: client_inv_def pair_inv_def)
  have result: "Some e = (if large then Some ErrPayload else if \<not> same_epoch c then Some ErrEpoch
      else if full then Some ErrWouldBlock
      else if ?size < 64 \<or> Validate ?f \<noteq> OK then Some ErrProtocol else None)"
    using some [symmetric] unfolding emit_result_def large_def full_def sz HdrLen_def length_greater_0_conv .
  have slot: "ProduceBegin ?m ?r = (if full then NilSlot else SlotAt ?off)"
    by (simp add: ProduceBegin_eq [OF ri] full_def outbound_def)
  have emit: "emit flags kind corr payload c =
      (if large then Ret (Some ErrPayload, c) else if \<not> same_epoch c then Ret (Some ErrEpoch, c)
       else if full then Ret (Some ErrWouldBlock, c)
       else case Encode ?f (sub ?m ?off ?size) of (n, slot) \<Rightarrow>
         if n \<noteq> HdrLen then Ret (Some ErrProtocol, c\<lparr>c_qpMem := Some (blit ?m ?off slot)\<rparr>)
         else Ret (None, c\<lparr>c_qpMem := Some (ProduceCommit ?r
           (blit (blit ?m ?off slot) (?off + HdrLen) (take (?size - HdrLen) payload)))\<rparr>))"
    unfolding emit_def large_def [symmetric] by (simp add: acc slot Let_def cong: if_cong)
  have bounds: "?off + ?size \<le> length ?m"
    using ri slot_in_range [of ?r] by (auto simp: ring_inv_def intro: order_trans)
  then have "?size < 64 \<or> Validate ?f \<noteq> OK \<Longrightarrow> Encode ?f (sub ?m ?off ?size) = (0, sub ?m ?off ?size)"
    by (intro Encode_rejects) simp
  with result bounds acc(4) show ?thesis
    unfolding emit by (simp split: if_splits)
qed

text \<open>When the frame an operation builds is valid.\<close>

lemma emit_frame_valid:
  assumes "flags = pattern_bit pat OR (if frag then FMore else 0)" and "length payload < 2 ^ 32"
    and "frag \<Longrightarrow> payload \<noteq> [] \<and> pat \<in> {PatRequest, PatReply}"
  shows "Validate (emit_frame flags kind corr payload handle) = OK \<longleftrightarrow>
    length payload \<le> unat MaxPayload \<and> (pat = PatNotification \<longleftrightarrow> corr = 0)"
proof -
  let ?f = "emit_frame flags kind corr payload handle"
  let ?pl = "if payload = [] then NoPayload else Inline"
  have len: "unat (of_nat (length payload) :: u32) = length payload"
    using assms(2) by (simp add: unat_of_nat)
  have flags: "HdrFlags ?f = flags_of pat ?pl False frag"
    using assms(1) by (cases frag; cases pat) (simp_all add: emit_frame_def zero_Frame_def flags_of_def ac_simps)
  have "Validate ?f = OK \<longleftrightarrow> well_formed ?f pat ?pl frag" by (rule Validate_flags_of [OF flags])
  also have "\<dots> \<longleftrightarrow> length payload \<le> unat MaxPayload \<and> (pat = PatNotification \<longleftrightarrow> corr = 0)"
    using assms(3) len unat_eq_zero [of "of_nat (length payload) :: u32"]
    by (auto simp: well_formed_def emit_frame_def zero_Frame_def word_le_nat_alt)
  finally show ?thesis .
qed

section \<open>Poll\<close>

text \<open>The one slice expression that can panic: an inline payload whose 64-bit end wraps.\<close>

definition payload_wraps :: "u32 \<Rightarrow> Frame \<Rightarrow> bool" where
  "payload_wraps slot f \<longleftrightarrow> HdrFlags f AND FInline \<noteq> 0 \<and> 0 < unat (PayloadLen f) \<and>
     2 ^ 64 \<le> unat (PayloadRef f) + unat (PayloadLen f) \<and>
     unat (PayloadRef f) + unat (PayloadLen f) - 2 ^ 64 \<le> unat slot"

definition slot_payload :: "bytes \<Rightarrow> Frame \<Rightarrow> bytes" where
  "slot_payload slot f =
    (if HdrFlags f AND FInline \<noteq> 0 \<and> unat (PayloadRef f) + unat (PayloadLen f) \<le> length slot
     then sub slot (unat (PayloadRef f)) (unat (PayloadLen f)) else [])"

lemma payload_end:
  fixes f :: Frame
  shows "unat (PayloadRef f + ucast (PayloadLen f)) =
    (if 2 ^ 64 \<le> unat (PayloadRef f) + unat (PayloadLen f)
     then unat (PayloadRef f) + unat (PayloadLen f) - 2 ^ 64
     else unat (PayloadRef f) + unat (PayloadLen f))"
  using unat_u64_less [of "PayloadRef f"] unat_u32_less [of "PayloadLen f"]
  by (auto simp: unat_word_ariths mod_if)

lemma poll_payload_eq:
  assumes "off + sz \<le> length mem" and "sz = unat (c_slotSize c)"
  shows "poll_payload c mem off f =
    (if payload_wraps (c_slotSize c) f then Crash else Ret (slot_payload (sub mem off sz) f))"
proof -
  define ref len wrap where "ref = unat (PayloadRef f)" and "len = unat (PayloadLen f)"
    and "wrap \<longleftrightarrow> 2 ^ 64 \<le> ref + len"
  define hi where "hi = unat (PayloadRef f + ucast (PayloadLen f))"
  have small: "len < 2 ^ 64" "ref < 2 ^ 64" "sz < 2 ^ 64"
    using unat_u32_less [of "PayloadLen f"] unat_u32_less [of "c_slotSize c"]
      unat_u64_less [of "PayloadRef f"] assms(2) by (simp_all add: len_def ref_def)
  have hi: "hi = (if wrap then ref + len - 2 ^ 64 else ref + len)"
    unfolding hi_def payload_end wrap_def ref_def len_def ..
  have poll: "poll_payload c mem off f =
    (if HdrFlags f AND FInline \<noteq> 0 \<and> 0 < len \<and> hi \<le> sz
     then if ref \<le> hi \<and> off + hi \<le> length mem then Ret (sub mem (off + ref) (hi - ref)) else Crash
     else Ret [])"
    by (simp add: poll_payload_def Let_def word_le_nat_alt word_less_nat_alt assms(2)
        ref_def len_def hi_def)
  show ?thesis
  proof (cases wrap)
    case True
    then have "hi < ref" and "sz < ref + len" using small unfolding hi wrap_def by simp_all
    then show ?thesis
      using True assms(1) unfolding poll payload_wraps_def slot_payload_def
      by (simp add: hi wrap_def flip: ref_def len_def assms(2))
  next
    case False
    then show ?thesis
      using assms(1) unfolding poll payload_wraps_def slot_payload_def
      by (auto simp: hi wrap_def simp flip: ref_def len_def assms(2))
  qed
qed

lemma pair_consume:
  assumes inv: "pair_inv m q" and some: "ring_items m (Inbound q) \<noteq> []"
  shows "pair_inv (ConsumeCommit (Inbound q) m) q"
    and "ring_items (ConsumeCommit (Inbound q) m) (Inbound q) = tl (ring_items m (Inbound q))"
    and "ring_items (ConsumeCommit (Inbound q) m) (Outbound q) = ring_items m (Outbound q)"
proof -
  have ri: "ring_inv m (Inbound q)" using inv by (simp add: pair_inv_def)
  note cc = ConsumeCommit_items [OF ri some [unfolded ring_items_Nil]]
  note pr = pair_inv_ring [OF inv _ agree_ConsumeCommit [OF ri] cc(2), of "Outbound q"]
  show "pair_inv (ConsumeCommit (Inbound q) m) q" using pr(1) by simp
  show "ring_items (ConsumeCommit (Inbound q) m) (Outbound q) = ring_items m (Outbound q)"
    using pr(2) by simp
  show "ring_items (ConsumeCommit (Inbound q) m) (Inbound q) = tl (ring_items m (Inbound q))"
    by (rule cc(1))
qed

text \<open>
  The first half of Poll releases the event handed out last; from there the ring's items are
  exactly the unread ones.
\<close>

definition poll_mem :: "Client \<Rightarrow> bytes" where
  "poll_mem c = (if c_pendingRead c then ConsumeCommit (Inbound (the_qp c)) (the_mem c) else the_mem c)"

lemma poll_mem:
  assumes "client_inv c"
  shows "pair_inv (poll_mem c) (the_qp c)"
    and "ring_items (poll_mem c) (Inbound (the_qp c)) = unread c"
    and "ring_items (poll_mem c) (Outbound (the_qp c)) = outbound c"
  using assms pair_consume [of "the_mem c" "the_qp c"]
  by (auto simp: poll_mem_def client_inv_def unread_def outbound_def)

definition poll_step :: "Client \<Rightarrow> bytes \<Rightarrow> bytes list \<Rightarrow> bool" where
  "poll_step c slot rest \<longleftrightarrow>
    (case Decode slot zero_Frame of
      (OK, f) \<Rightarrow>
        (if payload_wraps (c_slotSize c) f then Poll c = Crash
         else \<exists>c'. Poll c = Ret (Inr (Some \<lparr>EventFrame = f, Payload = slot_payload slot f\<rparr>), c') \<and>
           client_inv c' \<and> unread c' = rest \<and> outbound c' = outbound c \<and> same_epoch c')
    | _ \<Rightarrow> \<exists>c'. Poll c = Ret (Inr None, c') \<and>
           client_inv c' \<and> unread c' = rest \<and> outbound c' = outbound c \<and> same_epoch c')"

lemma Poll_cases:
  assumes inv: "client_inv c" and ep: "same_epoch c"
  shows "case unread c of
      [] \<Rightarrow> \<exists>c'. Poll c = Ret (Inr None, c') \<and> client_inv c' \<and> unread c' = [] \<and>
              outbound c' = outbound c \<and> same_epoch c'
    | slot # rest \<Rightarrow> poll_step c slot rest"
proof -
  define q m where "q = the_qp c" and "m = poll_mem c"
  define c1 where "c1 = c\<lparr>c_qpMem := Some m, c_pendingRead := False\<rparr>"
  note pm = poll_mem [OF inv, folded q_def m_def]
  have ri: "ring_inv m (Inbound q)" using pm(1) by (simp add: pair_inv_def)
  have sz: "slotSize (Inbound q) = c_slotSize c" using inv by (simp add: client_inv_def q_def)
  define off where "off = slot_offset (Inbound q) (get_u64 m (tail_at (Inbound q)))"
  have mem: "(if c_pendingRead c then ConsumeCommit (Inbound q) (the_mem c) else the_mem c) = m"
    by (simp add: m_def poll_mem_def q_def)
  have poll: "Poll c =
    (if unread c = [] then Ret (Inr None, c1)
     else case Decode (sub m off (unat (c_slotSize c))) zero_Frame of
       (OK, f) \<Rightarrow> obind (poll_payload c1 m off f) (\<lambda>payload.
          Ret (Inr (Some \<lparr>EventFrame = f, Payload = payload\<rparr>), c1\<lparr>c_pendingRead := True\<rparr>))
     | _ \<Rightarrow> Ret (Inr None, c1\<lparr>c_qpMem := Some (ConsumeCommit (Inbound q) m)\<rparr>))"
  proof -
    have slot: "ConsumeBegin m (Inbound q) = (if unread c = [] then NilSlot else SlotAt off)"
      by (simp add: ConsumeBegin_eq [OF ri] pm(2) off_def)
    have "Poll c = poll_slot c1 q m"
      using client_access [OF inv, folded q_def] ep
      by (simp add: Poll_def mem Let_def c1_def split del: if_split)
    then show ?thesis by (simp add: poll_slot_def slot sz)
  qed
  have upd: "client_inv (c\<lparr>c_qpMem := Some m', c_pendingRead := b\<rparr>) \<and>
      unread (c\<lparr>c_qpMem := Some m', c_pendingRead := b\<rparr>) =
        (if b then tl (ring_items m' (Inbound q)) else ring_items m' (Inbound q)) \<and>
      outbound (c\<lparr>c_qpMem := Some m', c_pendingRead := b\<rparr>) = ring_items m' (Outbound q) \<and>
      same_epoch (c\<lparr>c_qpMem := Some m', c_pendingRead := b\<rparr>)"
    if "pair_inv m' q" and "b \<Longrightarrow> ring_items m' (Inbound q) \<noteq> []" for m' b
    using client_inv_update [OF inv that(1) [unfolded q_def]] that(2) ep
    by (auto simp: unread_def outbound_def q_def same_epoch_def)
  show ?thesis
  proof (cases "unread c")
    case Nil
    then show ?thesis using poll upd [OF pm(1), of False] pm by (simp add: c1_def)
  next
    case (Cons slot rest)
    have head: "sub m off (unat (c_slotSize c)) = slot"
      using ring_items_hd [of m "Inbound q"] Cons pm(2)
      by (auto simp: slot_bytes_def off_def sz split: if_splits) (metis list.inject)
    have bound: "off + unat (c_slotSize c) \<le> length m"
      using ri slot_in_range(2) [of "Inbound q"] by (auto simp: ring_inv_def off_def sz intro: order_trans)
    have payload: "poll_payload (c\<lparr>c_qpMem := Some m, c_pendingRead := False\<rparr>) m off f =
        (if payload_wraps (c_slotSize c) f then Crash else Ret (slot_payload slot f))" for f
      by (subst poll_payload_eq [OF bound]) (simp_all add: head)
    have some: "ring_items m (Inbound q) \<noteq> []" using Cons pm by simp
    note consumed = pair_consume [OF pm(1) some]
    have order: "c\<lparr>c_pendingRead := b, c_qpMem := m'\<rparr> = c\<lparr>c_qpMem := m', c_pendingRead := b\<rparr>" for b m'
      by simp
    have "poll_step c slot rest"
      using upd [OF pm(1), of True] upd [OF consumed(1), of False] some consumed pm Cons
      by (auto simp: poll_step_def poll head payload c1_def order split: Result.splits)
    then show ?thesis using Cons by simp
  qed
qed

section \<open>Sample clients\<close>

definition sample_client :: Client where
  "sample_client = \<lparr>c_handle = 5, c_status = 0, c_slotSize = 128, c_inlineBudget = 64,
     c_queueCapacity = 2, c_arenaSize = 4096, c_attachedEpoch = 0, c_control = True,
     c_qp = Some sample_qp, c_arena = Some [], c_ctlMem = Some (replicate 96 0),
     c_qpMem = Some sample_qp_mem, c_pendingRead = False\<rparr>"

lemma sample_client_fields:
  "the_qp sample_client = sample_qp" "the_mem sample_client = sample_qp_mem"
  "same_epoch sample_client" "outbound sample_client = []" "unread sample_client = []"
proof -
  show "the_qp sample_client = sample_qp" "the_mem sample_client = sample_qp_mem"
    by (simp_all add: sample_client_def the_qp_def the_mem_def)
  then show "outbound sample_client = []" "unread sample_client = []"
    by (simp_all add: outbound_def unread_def sample_client_def ring_items_Nil Count_def
        head_at_def tail_at_def sample_qp_def sample_qp_fields)
  show "same_epoch sample_client"
    by (simp add: same_epoch_def sample_client_def Control_Epoch_def get_zeros)
qed

lemma sample_client_inv: "client_inv sample_client"
proof -
  have "pair_inv sample_qp_mem sample_qp"
    using AttachQueuePair_pair_inv [OF sample_qp_attach sample_qp_disjoint] .
  then show ?thesis
    by (simp add: client_inv_def sample_client_fields) (simp add: sample_client_def sample_qp_def)
qed

text \<open>The other end of a client's outbound ring: the same memory with the rings swapped.\<close>

definition peer :: "Client \<Rightarrow> Client" where
  "peer c = c\<lparr>c_qp := Some \<lparr>Inbound = Outbound (the_qp c), Outbound = Inbound (the_qp c)\<rparr>,
              c_pendingRead := False\<rparr>"

lemma peer_inv: "client_inv c \<Longrightarrow> client_inv (peer c)"
  and peer_content: "unread (peer c) = outbound c" "same_epoch (peer c) \<longleftrightarrow> same_epoch c"
  by (auto simp: client_inv_def peer_def the_qp_def the_mem_def pair_inv_def disjoint_rings_def
      unread_def outbound_def same_epoch_def)

text \<open>The host's side of the inbound ring, as a test environment: it produces a slot.\<close>

definition deliver :: "bytes \<Rightarrow> Client \<Rightarrow> Client option" where
  "deliver x c =
    (case produce x (the_mem c, Inbound (the_qp c)) of
       None \<Rightarrow> None | Some (mem, _) \<Rightarrow> Some (c\<lparr>c_qpMem := Some mem\<rparr>))"

lemma deliver_Some:
  assumes inv: "client_inv c" and len: "length x = unat (c_slotSize c)" and some: "deliver x c = Some c'"
  shows "client_inv c'" and "unread c' = unread c @ [x]" and "outbound c' = outbound c"
    and "same_epoch c' \<longleftrightarrow> same_epoch c" and "c_slotSize c' = c_slotSize c"
    and "c_arenaSize c' = c_arenaSize c"
proof -
  let ?r = "Inbound (the_qp c)" and ?m = "the_mem c"
  from some obtain mem r where p: "produce x (?m, ?r) = Some (mem, r)" and c': "c' = c\<lparr>c_qpMem := Some mem\<rparr>"
    by (auto simp: deliver_def split: option.splits)
  have ri: "ring_inv ?m ?r" and pi: "pair_inv ?m (the_qp c)" and l: "length x = unat (slotSize ?r)"
    using inv len by (simp_all add: client_inv_def pair_inv_def)
  note ps = produce_Some [OF ri l p, simplified]
  note pr = pair_inv_ring [OF pi _ agree_produce [OF ri l p, simplified] ps(2), of "Outbound (the_qp c)"]
  show "client_inv c'" using inv pr(1) ps(3) by (simp add: client_inv_def c')
  show "unread c' = unread c @ [x]"
    using inv ps(3) by (auto simp: unread_def c' client_inv_def Let_def)
  show "outbound c' = outbound c" using pr(2) by (simp add: outbound_def c')
qed (use some in \<open>auto simp: deliver_def same_epoch_def split: option.splits\<close>)

lemma deliver_sample: "length x = 128 \<Longrightarrow> \<exists>c'. deliver x sample_client = Some c'"
proof -
  assume "length x = 128"
  moreover have "ring_inv sample_qp_mem (Inbound sample_qp)"
    and "ring_items sample_qp_mem (Inbound sample_qp) = []"
    using sample_client_inv sample_client_fields(5)
    by (simp_all add: client_inv_def pair_inv_def sample_client_fields unread_def) (simp add: sample_client_def)
  ultimately have "produce x (sample_qp_mem, Inbound sample_qp) \<noteq> None"
    using ring.push_full [of "(sample_qp_mem, Inbound sample_qp)" x] by simp (simp add: sample_qp_def)
  then show ?thesis by (auto simp: deliver_def sample_client_fields)
qed

text \<open>Polling several times, as long as nothing goes wrong.\<close>

fun poll_many :: "nat \<Rightarrow> Client \<Rightarrow> ((err + Event option) list \<times> Client) outcome" where
  "poll_many 0 c = Ret ([], c)"
| "poll_many (Suc n) c =
    obind (Poll c) (\<lambda>(r, c). obind (poll_many n c) (\<lambda>(rs, c). Ret (r # rs, c)))"

definition slot_event :: "bytes \<Rightarrow> Event option" where
  "slot_event slot =
    (case Decode slot zero_Frame of
       (OK, f) \<Rightarrow> Some \<lparr>EventFrame = f, Payload = slot_payload slot f\<rparr>
     | _ \<Rightarrow> None)"

definition slot_safe :: "u32 \<Rightarrow> bytes \<Rightarrow> bool" where
  "slot_safe limit slot \<longleftrightarrow>
    (case Decode slot zero_Frame of (OK, f) \<Rightarrow> \<not> payload_wraps limit f | _ \<Rightarrow> True)"

lemma Poll_slot:
  assumes "client_inv c" and "same_epoch c" and "unread c = slot # rest" and "slot_safe (c_slotSize c) slot"
  shows "\<exists>c'. Poll c = Ret (Inr (slot_event slot), c') \<and> client_inv c' \<and> unread c' = rest \<and>
    outbound c' = outbound c \<and> same_epoch c' \<and> c_slotSize c' = c_slotSize c"
proof -
  obtain r f where dec: "Decode slot zero_Frame = (r, f)" by (metis surj_pair)
  have frame: "Poll c = Ret (e, c') \<Longrightarrow> c_slotSize c' = c_slotSize c" for e c'
    using client_access [OF assms(1)] assms(2)
    by (auto simp: Poll_def Let_def poll_slot_def obind_Ret_iff split: slot_result.splits prod.splits
        Result.splits if_splits)
  have "poll_step c slot rest" using Poll_cases [OF assms(1,2)] assms(3) by simp
  then show ?thesis
    using assms(4) frame by (cases r) (auto simp: poll_step_def slot_event_def slot_safe_def dec)
qed

lemma poll_many_unread:
  assumes "client_inv c" and "same_epoch c" and "\<And>slot. slot \<in> set (unread c) \<Longrightarrow> slot_safe (c_slotSize c) slot"
  shows "\<exists>c'. poll_many (length (unread c)) c = Ret (map (Inr \<circ> slot_event) (unread c), c') \<and>
    client_inv c' \<and> unread c' = [] \<and> outbound c' = outbound c"
  using assms
proof (induction "unread c" arbitrary: c)
  case (Cons slot rest)
  from Poll_slot [OF Cons.prems(1,2) Cons.hyps(2) [symmetric]] Cons.prems(3) Cons.hyps(2)
  obtain c1 where c1: "Poll c = Ret (Inr (slot_event slot), c1)" "client_inv c1" "unread c1 = rest"
    "outbound c1 = outbound c" "same_epoch c1" "c_slotSize c1 = c_slotSize c"
    by (metis list.set_intros(1))
  have safe: "slot_safe (c_slotSize c1) x" if "x \<in> set (unread c1)" for x
    using Cons.prems(3) [of x] that by (simp add: c1 flip: Cons.hyps(2))
  from Cons.hyps(1) [OF c1(3) [symmetric] c1(2,5) safe] obtain c2 where
    "poll_many (length rest) c1 = Ret (map (Inr \<circ> slot_event) rest, c2)" "client_inv c2"
    "unread c2 = []" "outbound c2 = outbound c"
    using c1 by auto
  then show ?case by (simp add: c1(1) flip: Cons.hyps(2))
qed auto

section \<open>Properties\<close>

text \<open>
  C19. Emit is all or nothing: on an attached client it refuses with the error of the first
  failing check, in the order payload size, host restart, full ring, invalid frame, and then
  changes nothing at all; or it appends exactly one slot to the outbound ring, which decodes
  to the frame with the given flags, kind and correlation and holds the payload behind the
  header, and leaves the unread inbound events as they were.
\<close>

theorem emit_all_or_nothing:
  assumes "client_inv c"
  shows "case emit_result flags kind corr payload c of
      Some e \<Rightarrow> emit flags kind corr payload c = Ret (Some e, c)
    | None \<Rightarrow> \<exists>c' slot. emit flags kind corr payload c = Ret (None, c') \<and> client_inv c' \<and>
        outbound c' = outbound c @ [slot] \<and> unread c' = unread c \<and>
        Decode slot g = (OK, emit_frame flags kind corr payload (c_handle c)) \<and>
        sub slot HdrLen (length payload) = payload"
proof (cases "emit_result flags kind corr payload c")
  case None
  from emit_writes [OF assms None] obtain mem slot where
    w: "emit flags kind corr payload c = Ret (None, c\<lparr>c_qpMem := Some mem\<rparr>)" "pair_inv mem (the_qp c)"
      "ring_items mem (Inbound (the_qp c)) = ring_items (the_mem c) (Inbound (the_qp c))"
      "ring_items mem (Outbound (the_qp c)) = outbound c @ [slot]"
      "slot_holds slot (emit_frame flags kind corr payload (c_handle c)) payload"
    by blast
  have "client_inv (c\<lparr>c_qpMem := Some mem\<rparr>)"
    using assms w(2,3) by (simp add: client_inv_def)
  with w slot_holds_Decode [OF w(5)] None show ?thesis
    by (auto simp: outbound_def unread_def intro!: exI [of _ slot])
qed (use emit_refuses [OF assms] in simp)

theorem emit_all_or_nothing_witness:
  "\<exists>c' slot. Publish 256 [1, 2, 3] sample_client = Ret (None, c') \<and> outbound c' = [slot] \<and>
     sub slot 64 3 = [1, 2, 3]"
proof -
  have "emit_result FNotification 256 0 [1, 2, 3] sample_client = None"
    by (simp add: emit_result_def sample_client_fields)
      (simp add: sample_client_def sample_qp_def emit_frame_valid [where pat = PatNotification and frag = False])
  with emit_all_or_nothing [OF sample_client_inv, of FNotification 256 0 "[1, 2, 3]"]
  show ?thesis by (fastforce simp: Publish_def sample_client_fields numeral_3_eq_3)
qed

text \<open>
  What one side emits is what the other side's Poll returns: after a successful emit into
  an empty ring, polling the ring's other end gives an event with exactly the frame that was
  built and exactly the payload, and nothing is left to read behind it.
\<close>

lemma emit_then_poll:
  assumes inv: "client_inv c" and "outbound c = []"
    and emit: "emit flags kind corr payload c = Ret (None, c')"
  shows "\<exists>p. Poll (peer c') = Ret (Inr (Some
      \<lparr>EventFrame = emit_frame flags kind corr payload (c_handle c), Payload = payload\<rparr>), p) \<and>
    client_inv p \<and> unread p = []"
proof -
  let ?f = "emit_frame flags kind corr payload (c_handle c)"
  have none: "emit_result flags kind corr payload c = None"
    using emit_refuses [OF inv] emit by (cases "emit_result flags kind corr payload c") auto
  from emit_writes [OF inv none] emit obtain mem slot where c': "c' = c\<lparr>c_qpMem := Some mem\<rparr>"
    and pair: "pair_inv mem (the_qp c)"
    and inbound: "ring_items mem (Inbound (the_qp c)) = ring_items (the_mem c) (Inbound (the_qp c))"
    and out: "ring_items mem (Outbound (the_qp c)) = outbound c @ [slot]"
    and holds: "slot_holds slot ?f payload"
    by auto
  have inv': "client_inv c'"
    using inv pair inbound by (simp add: client_inv_def c')
  have ep: "same_epoch c'"
    using none by (simp add: emit_result_def c' same_epoch_def split: if_splits)
  have "unread (peer c') = [slot]"
    using out assms(2) by (simp add: peer_content outbound_def c')
  with Poll_cases [OF peer_inv [OF inv']] ep have step: "poll_step (peer c') slot []"
    by (simp add: peer_content)
  have dec: "Decode slot g = (OK, ?f)" for g
    using slot_holds_Decode [OF holds] by simp
  have fits: "payload \<noteq> [] \<Longrightarrow> 64 + length payload \<le> unat (c_slotSize c)"
    using none by (simp add: emit_result_def split: if_splits)
  have len: "unat (of_nat (length payload) :: u32) = length payload"
    using fits unat_u32_less [of "c_slotSize c"] by (cases "payload = []") (simp_all add: unat_of_nat)
  have fr: "unat (PayloadLen ?f) = length payload"
    "unat (PayloadRef ?f) = (if payload = [] then 0 else 64)"
    "payload \<noteq> [] \<Longrightarrow> HdrFlags ?f AND FInline \<noteq> 0"
    by (cases "payload = []"; simp add: emit_frame_def zero_Frame_def Let_def len bit.conj_disj_distrib)+
  have "\<not> payload_wraps (c_slotSize (peer c')) ?f"
    unfolding payload_wraps_def fr using fits unat_u32_less [of "c_slotSize c"] by auto
  moreover have "slot_payload slot ?f = payload"
  proof (cases "payload = []")
    case False
    have "64 + length payload \<le> length slot"
      using holds by (auto simp: slot_holds_def dest: arg_cong [where f = length])
    then show ?thesis
      using False slot_holds_Decode [OF holds] fr(3) by (simp add: slot_payload_def fr(1,2))
  qed (unfold slot_payload_def fr, simp)
  ultimately show ?thesis
    using step by (auto simp: poll_step_def dec)
qed

lemma sample_emit_then_poll:
  "\<exists>c' p. Publish 256 [1, 2, 3] sample_client = Ret (None, c') \<and>
     Poll (peer c') = Ret (Inr (Some \<lparr>EventFrame = emit_frame FNotification 256 0 [1, 2, 3] 5,
       Payload = [1, 2, 3]\<rparr>), p)"
proof -
  have "emit_result FNotification 256 0 [1, 2, 3] sample_client = None"
    by (simp add: emit_result_def sample_client_fields)
      (simp add: sample_client_def sample_qp_def emit_frame_valid [where pat = PatNotification and frag = False])
  then obtain mem where e: "emit FNotification 256 0 [1, 2, 3] sample_client =
      Ret (None, sample_client\<lparr>c_qpMem := Some mem\<rparr>)"
    using emit_writes [OF sample_client_inv] by blast
  have "c_handle sample_client = 5" by (simp add: sample_client_def)
  with emit_then_poll [OF sample_client_inv _ e] e show ?thesis
    by (auto simp: Publish_def sample_client_fields)
qed

text \<open>
  C20. Poll hands out every unread slot once, in order, and only inbound ones: with nothing
  unread it returns no event; otherwise it takes the oldest unread slot, returning its frame
  and the payload slice, or skipping it when it does not decode; the outbound ring keeps its
  content. The single exception is a slot whose inline payload range wraps at 2 to the 64:
  there the slice expression panics.
\<close>

theorem Poll_in_order:
  assumes "client_inv c" and "same_epoch c"
  shows "case unread c of
      [] \<Rightarrow> \<exists>c'. Poll c = Ret (Inr None, c') \<and> client_inv c' \<and> unread c' = [] \<and> outbound c' = outbound c
    | slot # rest \<Rightarrow>
        (if fst (Decode slot zero_Frame) \<noteq> OK
         then \<exists>c'. Poll c = Ret (Inr None, c') \<and> client_inv c' \<and> unread c' = rest \<and> outbound c' = outbound c
         else let f = snd (Decode slot zero_Frame) in
           if payload_wraps (c_slotSize c) f then Poll c = Crash
           else \<exists>c'. Poll c = Ret (Inr (Some \<lparr>EventFrame = f, Payload = slot_payload slot f\<rparr>), c') \<and>
             client_inv c' \<and> unread c' = rest \<and> outbound c' = outbound c)"
proof (cases "unread c")
  case (Cons slot rest)
  obtain r f where dec: "Decode slot zero_Frame = (r, f)" by (metis surj_pair)
  have "poll_step c slot rest" using Poll_cases [OF assms] Cons by simp
  then show ?thesis
    by (cases r; cases "payload_wraps (c_slotSize c) f") (auto simp: poll_step_def dec Cons Let_def)
qed (use Poll_cases [OF assms] in auto)

theorem Poll_in_order_witness: "\<exists>c'. Poll sample_client = Ret (Inr None, c') \<and> unread c' = []"
  using Poll_in_order [OF sample_client_inv] by (auto simp: sample_client_fields)

text \<open>
  Poll does not crash on a frame that passes the placement check of \<open>wire.go\<close>, and hands out
  exactly its inline payload. (Poll itself never runs that check.)
\<close>

lemma Poll_placed_frame:
  assumes "client_inv c" and "same_epoch c" and "unread c = slot # rest"
    and "Decode slot zero_Frame = (OK, f)" and "CheckPlacement f (c_slotSize c) (c_arenaSize c) = OK"
  shows "\<exists>c'. Poll c = Ret (Inr (Some \<lparr>EventFrame = f, Payload = slot_payload slot f\<rparr>), c') \<and>
    unread c' = rest"
proof -
  have "poll_step c slot rest"
    using Poll_cases [OF assms(1,2)] assms(3) by simp
  moreover have "\<not> payload_wraps (c_slotSize c) f"
    using assms(5) unat_u32_less [of "c_slotSize c"]
    by (auto simp: CheckPlacement_iff payload_wraps_def split: if_splits)
  ultimately show ?thesis
    using assms(4) by (auto simp: poll_step_def)
qed



text \<open>
  C22. Poll panics on hostile input: there is a slot whose frame decodes, which the placement
  check of \<open>wire.go\<close> would reject with \<open>ErrPayloadLen\<close>, and which makes Poll slice out of
  range, because its payload reference plus length wraps around 64 bits.
\<close>

definition wrapping_frame :: Frame where
  "wrapping_frame = zero_Frame\<lparr>HdrFlags := FNotification OR FInline, FrameVersion := WireVersion,
     EventKind := 256, PayloadRef := 0xFFFFFFFFFFFFFFFF, PayloadLen := 1\<rparr>"



definition sample_reply :: bytes where
  "sample_reply = le32 attachReplyMagic @ le32 0 @ le32 5 @ le32 0 @ le32 128 @ le32 64 @ le32 2 @
     le32 0 @ le64 4096 @ le64 0"

definition sample_control :: bytes where
  "sample_control = le32 ctlMagic @ le32 1 @ le32 1 @ le32 0 @ le32 128 @ le32 64 @ le32 2 @ le32 0 @
     le64 4096 @ le64 0 @ replicate 48 0"

definition sample_kernel :: kernel where
  "sample_kernel = \<lparr>sendmsg = (\<lambda>_. None), recvmsg = Inr (48, sample_reply, [0]),
     ParseSocketControlMessage = (\<lambda>_. Inr [\<lparr>cmsg_level = 1, cmsg_type = 1, cmsg_data = []\<rparr>]),
     ParseUnixRights = (\<lambda>_. Inr [7, 8, 9]), SOL_SOCKET = 1, SCM_RIGHTS = 1,
     mmap = (\<lambda>fd n. Inr (if fd = 7 then sample_control else if fd = 8 then [] else sample_qp_mem))\<rparr>"

definition sample_attached :: Client where
  "sample_attached = sample_client\<lparr>c_ctlMem := Some sample_control\<rparr>"

lemma sample_kernel_attaches:
  "AttachAs sample_kernel cls ref = ((Some sample_attached, None),
     [Sent (attach_request cls ref), Mapped ControlMap, Mapped ArenaMap, Mapped QueueMap,
      ClosedFd 7, ClosedFd 8, ClosedFd 9])"
proof -
  have "AttachControl sample_control = Inr ()"
    by (simp add: AttachControl_def sample_control_def layout Let_def)
  then show ?thesis
    by (simp add: AttachAs_def attach_maps_def attach_views_def sample_kernel_def parseRights_def
        attach_reply_client_def sample_reply_def layout sample_qp_attach sample_attached_def
        sample_client_def zero_Client_def)
qed


text \<open>
  A successful attach yields a usable client: its fields are the reply's, it carries the
  negotiated geometry, and under the host's layout promise (the rings disjoint and of the
  negotiated slot size, which attach does not compare) it satisfies the invariant that emit
  and Poll rely on, with nothing marked as read.
\<close>

lemma AttachAs_establishes_inv:
  assumes "AttachAs k cls ref = ((Some c, None), es)"
    and "disjoint_rings (the_qp c)" and "slotSize (Inbound (the_qp c)) = c_slotSize c"
    and "slotSize (Outbound (the_qp c)) = c_slotSize c"
  shows "client_inv c \<and> \<not> c_pendingRead c \<and> c_status c = AttachOK \<and>
    (\<exists>n replyBuf oob. recvmsg k = Inr (n, replyBuf, oob) \<and> length (parseRights k oob) = 3 \<and>
      c_handle c = get_u32 replyBuf 8 \<and> c_slotSize c = get_u32 replyBuf 16 \<and>
      c_inlineBudget c = get_u32 replyBuf 20 \<and> c_attachedEpoch c = get_u64 replyBuf 40)"
proof -
  from assms(1) obtain n replyBuf oob where recv: "recvmsg k = Inr (n, replyBuf, oob)"
    and ok: "length (parseRights k oob) = 3" "get_u32 replyBuf 4 = AttachOK"
    and maps: "\<exists>es'. attach_maps k (parseRights k oob) (attach_reply_client replyBuf) = ((Some c, None), es')"
    by (auto simp: AttachAs_def Let_def split: option.splits sum.splits prod.splits if_splits)
  from maps obtain ctlMem arena qpMem q where q: "AttachQueuePair qpMem = Inr q"
    and c: "c = (attach_reply_client replyBuf)\<lparr>c_ctlMem := Some ctlMem, c_arena := Some arena,
      c_qpMem := Some qpMem, c_control := True, c_qp := Some q\<rparr>"
    by (auto simp: attach_maps_def attach_views_def Let_def split: sum.splits prod.splits)
  have view: "the_qp c = q" "the_mem c = qpMem" by (simp_all add: c the_qp_def the_mem_def)
  have "pair_inv qpMem q" using AttachQueuePair_pair_inv [OF q] assms(2) by (simp add: view)
  then have "client_inv c"
    using assms(3,4) unfolding client_inv_def view
    by (simp add: c attach_reply_client_def zero_Client_def)
  then show ?thesis
    using recv ok by (simp add: c attach_reply_client_def zero_Client_def)
qed

lemma sample_attached_inv: "client_inv sample_attached"
proof -
  have "the_qp sample_attached = sample_qp"
    by (simp add: sample_attached_def sample_client_def the_qp_def)
  with AttachAs_establishes_inv [OF sample_kernel_attaches] sample_qp_disjoint show ?thesis
    by (simp add: sample_attached_def sample_client_def sample_qp_def)
qed

text \<open>
  A detached client must not be used: Detach unmaps the regions but leaves the views in
  place, so on a client that was attached Poll, the heartbeat and the epoch test then touch
  unmapped memory, and so does every emit that passes the size check; a second Detach is
  harmless.
\<close>

lemma detached_client_crashes:
  assumes "client_inv c"
  shows "(let d = fst (Detach c) in
    Poll d = Crash \<and> Heartbeat now d = Crash \<and> EpochChanged d = Crash \<and>
    emit flags kind corr [] d = Crash \<and> Detach d = (d, []))"
  using assms by (auto simp: Let_def Detach_def client_inv_def Poll_def Heartbeat_def emit_def
      EpochChanged_def queue_pair_def split: option.splits)

end
