(* ===== verification/Client_Sound.thy ===== *)
theory Client_Sound
  imports Client
begin

text \<open>
  The bus client as a state machine: its own operations and what the host does to the shared
  memory behind its back, as one step relation on attached clients. Proved here: every client
  reached from a successful attach is well formed, whatever was sent, received and delivered
  in between, and no operation on it goes wrong but one, a Poll of a frame whose payload range
  wraps around. Every run refines an abstract machine of two queues of slots.
\<close>

section \<open>Operations are total on attached clients\<close>

lemma emit_total:
  assumes "client_inv c"
  shows "\<exists>r c'. emit flags kind corr payload c = Ret (r, c') \<and> client_inv c' \<and>
    c_inlineBudget c' = c_inlineBudget c"
proof (cases "emit_result flags kind corr payload c")
  case None
  from emit_writes [OF assms None] assms show ?thesis
    by (auto simp: client_inv_def)
qed (use emit_refuses [OF assms] assms in blast)

lemma ReplyFragment_total:
  assumes "client_inv c"
  shows "\<exists>r c'. ReplyFragment kind corr payload m c = Ret (r, c') \<and> client_inv c' \<and>
    c_inlineBudget c' = c_inlineBudget c"
  using emit_total [OF assms] assms by (auto simp: ReplyFragment_def send_fragment_def)

lemma Heartbeat_total: "client_inv c \<Longrightarrow> \<exists>c'. Heartbeat now c = Ret c' \<and> client_inv c'"
  using pair_inv_heartbeat [of "the_mem c" "the_qp c" now] client_access(2) [of c]
  by (simp add: Heartbeat_def client_inv_def)

text \<open>A client whose host has restarted refuses to poll and keeps its state.\<close>

lemma Poll_restarted: "client_inv c \<Longrightarrow> \<not> same_epoch c \<Longrightarrow> Poll c = Ret (Inl ErrEpoch, c)"
  using client_access [of c] by (simp add: Poll_def)

definition poll_crashes :: "Client \<Rightarrow> bool" where
  "poll_crashes c \<longleftrightarrow> same_epoch c \<and>
     (case unread c of [] \<Rightarrow> False | slot # rest \<Rightarrow> \<not> slot_safe (c_slotSize c) slot)"

lemma Poll_total:
  assumes "client_inv c"
  shows "Poll c = Crash \<longleftrightarrow> poll_crashes c" and "Poll c = Ret (r, c') \<Longrightarrow> client_inv c'"
proof -
  have "if poll_crashes c then Poll c = Crash else \<exists>r c'. Poll c = Ret (r, c') \<and> client_inv c'"
  proof (cases "same_epoch c")
    case False
    then show ?thesis using Poll_restarted [OF assms] assms by (simp add: poll_crashes_def)
  next
    case True
    note cases = Poll_cases [OF assms True]
    show ?thesis
    proof (cases "unread c")
      case Nil
      then show ?thesis using cases by (auto simp: poll_crashes_def)
    next
      case (Cons slot rest)
      obtain res f where dec: "Decode slot zero_Frame = (res, f)" by (metis surj_pair)
      show ?thesis
        using cases True
        by (cases res) (auto simp: Cons poll_step_def dec poll_crashes_def slot_safe_def)
    qed
  qed
  then show "Poll c = Crash \<longleftrightarrow> poll_crashes c" and "Poll c = Ret (r, c') \<Longrightarrow> client_inv c'"
    by (auto split: if_splits)
qed

section \<open>Steps of an attached client and its host\<close>

text \<open>
  The client sends, polls and shows that it is alive. The host puts a slot into the inbound
  ring, takes the oldest one out of the outbound ring, or writes the control region, which is
  how a restart becomes visible. A step is labelled with what it moved, if anything.
\<close>

datatype act = Sent_event u16 u32 u64 bytes | Got Event | Delivered bytes | Taken bytes | Quiet

definition take_outbound :: "Client \<Rightarrow> Client" where
  "take_outbound c = c\<lparr>c_qpMem := Some (ConsumeCommit (Outbound (the_qp c)) (the_mem c))\<rparr>"

inductive client_act :: "Client \<Rightarrow> act \<Rightarrow> Client \<Rightarrow> bool" where
  sends: "emit flags kind corr payload c = Ret (None, c') \<Longrightarrow>
    client_act c (Sent_event flags kind corr payload) c'"
| refused: "emit flags kind corr payload c = Ret (Some e, c') \<Longrightarrow> client_act c Quiet c'"
| gets: "Poll c = Ret (Inr (Some event), c') \<Longrightarrow> client_act c (Got event) c'"
| idle: "Poll c = Ret (Inr None, c') \<Longrightarrow> client_act c Quiet c'"
| fails: "Poll c = Ret (Inl e, c') \<Longrightarrow> client_act c Quiet c'"
| beats: "Heartbeat now c = Ret c' \<Longrightarrow> client_act c Quiet c'"
| delivered: "length slot = unat (c_slotSize c) \<Longrightarrow> deliver slot c = Some c' \<Longrightarrow>
    client_act c (Delivered slot) c'"
| taken: "outbound c = slot # rest \<Longrightarrow> client_act c (Taken slot) (take_outbound c)"
| control: "client_act c Quiet (c\<lparr>c_ctlMem := Some ctlMem\<rparr>)"

inductive client_run :: "Client \<Rightarrow> act list \<Rightarrow> Client \<Rightarrow> bool" where
  stays: "client_run c [] c"
| acts: "client_run c as d \<Longrightarrow> client_act d a e \<Longrightarrow> client_run c (as @ [a]) e"

lemma take_outbound_inv:
  assumes inv: "client_inv c" and some: "outbound c \<noteq> []"
  shows "client_inv (take_outbound c)" and "outbound (take_outbound c) = tl (outbound c)"
    and "unread (take_outbound c) = unread c"
proof -
  define q where "q = \<lparr>Inbound = Outbound (the_qp c), Outbound = Inbound (the_qp c)\<rparr>"
  have pair: "pair_inv m q \<longleftrightarrow> pair_inv m (the_qp c)" for m
    by (auto simp: pair_inv_def disjoint_rings_def q_def)
  have "pair_inv (the_mem c) q" using inv by (simp add: pair client_inv_def)
  note pc = pair_consume [OF this] some
  then show "client_inv (take_outbound c)" and "outbound (take_outbound c) = tl (outbound c)"
    and "unread (take_outbound c) = unread c"
    using inv by (simp_all add: pair) (simp_all add: q_def take_outbound_def outbound_def unread_def client_inv_def)
qed

text \<open>What a step may not change: handle, geometry and the arena's mapping.\<close>

definition same_shape :: "Client \<Rightarrow> Client \<Rightarrow> bool" where
  "same_shape c c' \<longleftrightarrow> c_arena c' = c_arena c \<and> c_handle c' = c_handle c \<and>
     c_slotSize c' = c_slotSize c \<and> the_qp c' = the_qp c"

lemma poll_slot_shape: "poll_slot c q mem = Ret (r, c') \<Longrightarrow> same_shape c c'"
  by (auto simp: poll_slot_def obind_Ret_iff same_shape_def split: slot_result.splits prod.splits Result.splits)

lemma Poll_shape: "client_inv c \<Longrightarrow> Poll c = Ret (r, c') \<Longrightarrow> same_shape c c'"
  using client_access [of c]
  by (auto simp: Poll_def Let_def same_shape_def the_qp_def dest!: poll_slot_shape split: if_splits)

lemma client_act_shape: "client_act c a c' \<Longrightarrow> client_inv c \<Longrightarrow> same_shape c c'"
proof (induction rule: client_act.induct)
  case (sends flags kind corr payload c c')
  then show ?case
    using emit_writes [of c flags kind corr payload] emit_refuses [of c flags kind corr payload]
    by (cases "emit_result flags kind corr payload c") (auto simp: same_shape_def)
next
  case (refused flags kind corr payload c e c')
  then show ?case
    using emit_writes [of c flags kind corr payload] emit_refuses [of c flags kind corr payload]
    by (cases "emit_result flags kind corr payload c") (auto simp: same_shape_def)
qed (auto simp: Heartbeat_def obind_Ret_iff deliver_def take_outbound_def same_shape_def the_qp_def
    dest: Poll_shape [unfolded same_shape_def the_qp_def] split: option.splits)

section \<open>The two queues a client stands for\<close>

text \<open>
  The abstract machine: a queue of slots in each direction, the outbound one bounded. A slot
  that is sent holds the frame and the payload; one that does not decode is skipped.
\<close>

type_synonym queues = "bytes list \<times> bytes list"

inductive queues_act :: "u32 \<Rightarrow> nat \<Rightarrow> queues \<Rightarrow> act \<Rightarrow> queues \<Rightarrow> bool" for handle limit where
  q_send: "length out < limit \<Longrightarrow> slot_holds slot (emit_frame flags kind corr payload handle) payload \<Longrightarrow>
    queues_act handle limit (inb, out) (Sent_event flags kind corr payload) (inb, out @ [slot])"
| q_get: "slot_event slot = Some event \<Longrightarrow> queues_act handle limit (slot # inb, out) (Got event) (inb, out)"
| q_skip: "slot_event slot = None \<Longrightarrow> queues_act handle limit (slot # inb, out) Quiet (inb, out)"
| q_deliver: "queues_act handle limit (inb, out) (Delivered slot) (inb @ [slot], out)"
| q_take: "queues_act handle limit (inb, slot # out) (Taken slot) (inb, out)"
| q_quiet: "queues_act handle limit q Quiet q"

inductive queues_run :: "u32 \<Rightarrow> nat \<Rightarrow> queues \<Rightarrow> act list \<Rightarrow> queues \<Rightarrow> bool" for handle limit where
  q_stays: "queues_run handle limit q [] q"
| q_acts: "queues_run handle limit q as r \<Longrightarrow> queues_act handle limit r a t \<Longrightarrow>
    queues_run handle limit q (as @ [a]) t"

definition queues_of :: "Client \<Rightarrow> queues" where
  "queues_of c = (unread c, outbound c)"

definition out_limit :: "Client \<Rightarrow> nat" where
  "out_limit c = unat (capacity (Outbound (the_qp c)))"

lemma Poll_simulates:
  assumes inv: "client_inv c" and poll: "Poll c = Ret (r, c')"
  shows "client_inv c' \<and>
    queues_act h n (queues_of c) (case r of Inr (Some event) \<Rightarrow> Got event | _ \<Rightarrow> Quiet) (queues_of c')"
proof (cases "same_epoch c")
  case False
  then show ?thesis using Poll_restarted [OF inv] poll inv by (auto intro: q_quiet)
next
  case True
  note cases = Poll_cases [OF inv True]
  show ?thesis
  proof (cases "unread c")
    case Nil
    then show ?thesis using cases poll by (auto simp: queues_of_def intro: q_quiet)
  next
    case (Cons slot rest)
    obtain res f where dec: "Decode slot zero_Frame = (res, f)" by (metis surj_pair)
    show ?thesis
    proof (cases "res = OK")
      case True
      with cases poll Cons dec show ?thesis
        by (auto simp: poll_step_def queues_of_def slot_event_def split: if_splits intro!: q_get)
    next
      case False
      then have "slot_event slot = None" by (simp add: slot_event_def dec split: Result.splits)
      moreover have "r = Inr None \<and> client_inv c' \<and> unread c' = rest \<and> outbound c' = outbound c"
        using cases poll Cons dec False by (auto simp: poll_step_def split: Result.splits)
      ultimately show ?thesis by (auto simp: queues_of_def Cons intro: q_skip)
    qed
  qed
qed

text \<open>One step of client or host is one step of the queues, and keeps the invariant.\<close>

lemma client_act_simulates:
  "client_act c a c' \<Longrightarrow> client_inv c \<Longrightarrow>
   client_inv c' \<and> queues_act (c_handle c) (out_limit c) (queues_of c) a (queues_of c')"
proof (induction rule: client_act.induct)
  case (sends flags kind corr payload c c')
  then have none: "emit_result flags kind corr payload c = None"
    using emit_refuses [of c flags kind corr payload] by (cases "emit_result flags kind corr payload c") auto
  have "ring_inv (the_mem c) (Outbound (the_qp c))" using sends.prems by (simp add: client_inv_def pair_inv_def)
  then have "length (outbound c) \<le> out_limit c"
    by (simp add: outbound_def out_limit_def ring_inv_def word_le_nat_alt)
  moreover have "length (outbound c) \<noteq> out_limit c"
    using none by (auto simp: emit_result_def out_limit_def split: if_splits)
  ultimately have "length (outbound c) < out_limit c" by simp
  with emit_writes [OF sends.prems none] sends show ?case
    by (auto simp: queues_of_def outbound_def unread_def client_inv_def intro!: q_send)
next
  case (refused flags kind corr payload c e c')
  then have "c' = c"
    using emit_writes [of c flags kind corr payload] emit_refuses [of c flags kind corr payload]
    by (cases "emit_result flags kind corr payload c") auto
  with refused show ?case by (auto intro: q_quiet)
next
  case (beats now c c')
  then obtain m where c': "c' = c\<lparr>c_qpMem := Some m\<rparr>" and m: "m = SetHeartbeat now (the_mem c)"
    using client_access(2) [of c] by (auto simp: Heartbeat_def)
  have "pair_inv (the_mem c) (the_qp c)" using beats.prems by (simp add: client_inv_def)
  note pi = pair_inv_heartbeat [OF this, of now, folded m]
  then have "queues_of c' = queues_of c"
    by (simp add: queues_of_def unread_def outbound_def c')
  with beats Heartbeat_total [of c now] show ?case by (auto intro: q_quiet)
next
  case (control c ctlMem)
  then show ?case
    by (auto simp: client_inv_def the_qp_def the_mem_def queues_of_def unread_def outbound_def intro: q_quiet)
next
  case (delivered slot c c')
  then show ?case using deliver_Some [of c slot c'] by (auto simp: queues_of_def intro: q_deliver)
next
  case (taken c slot rest)
  then show ?case using take_outbound_inv [of c] by (auto simp: queues_of_def intro: q_take)
qed (use Poll_simulates in force)+

lemma client_run_simulates:
  "client_run c as d \<Longrightarrow> client_inv c \<Longrightarrow>
   client_inv d \<and> same_shape c d \<and> queues_run (c_handle c) (out_limit c) (queues_of c) as (queues_of d)"
proof (induction rule: client_run.induct)
  case (acts c as d a e)
  then have "client_inv d" "same_shape c d" by simp_all
  with client_act_simulates [OF acts.hyps(2)] client_act_shape [OF acts.hyps(2)] acts show ?case
    by (auto simp: same_shape_def out_limit_def intro: q_acts)
qed (auto simp: same_shape_def intro: q_stays)

text \<open>What a run has moved, direction by direction.\<close>

fun acts_got :: "act list \<Rightarrow> Event list" where
  "acts_got [] = []" | "acts_got (Got e # as) = e # acts_got as" | "acts_got (_ # as) = acts_got as"

fun acts_delivered :: "act list \<Rightarrow> bytes list" where
  "acts_delivered [] = []" | "acts_delivered (Delivered s # as) = s # acts_delivered as"
| "acts_delivered (_ # as) = acts_delivered as"

fun acts_taken :: "act list \<Rightarrow> bytes list" where
  "acts_taken [] = []" | "acts_taken (Taken s # as) = s # acts_taken as"
| "acts_taken (_ # as) = acts_taken as"

fun acts_sent :: "act list \<Rightarrow> (u16 \<times> u32 \<times> u64 \<times> bytes) list" where
  "acts_sent [] = []"
| "acts_sent (Sent_event flags kind corr payload # as) = (flags, kind, corr, payload) # acts_sent as"
| "acts_sent (_ # as) = acts_sent as"

definition holds_event :: "u32 \<Rightarrow> u16 \<times> u32 \<times> u64 \<times> bytes \<Rightarrow> bytes \<Rightarrow> bool" where
  "holds_event handle e slot = (case e of (flags, kind, corr, payload) \<Rightarrow>
     slot_holds slot (emit_frame flags kind corr payload handle) payload)"

lemma acts_append [simp]:
  "acts_sent (xs @ ys) = acts_sent xs @ acts_sent ys"
  "acts_got (xs @ ys) = acts_got xs @ acts_got ys"
  "acts_delivered (xs @ ys) = acts_delivered xs @ acts_delivered ys"
  "acts_taken (xs @ ys) = acts_taken xs @ acts_taken ys"
  by (induction xs rule: acts_got.induct) auto

lemma queues_run_fifo:
  "queues_run h n q as r \<Longrightarrow> length (snd q) \<le> n \<Longrightarrow> length (snd r) \<le> n \<and>
   (\<exists>gone. fst q @ acts_delivered as = gone @ fst r \<and> acts_got as = List.map_filter slot_event gone) \<and>
   (\<exists>sent. snd q @ sent = acts_taken as @ snd r \<and> list_all2 (holds_event h) (acts_sent as) sent)"
proof (induction rule: queues_run.induct)
  case (q_acts q as r a t)
  then obtain gone sent where IH: "fst q @ acts_delivered as = gone @ fst r"
    "acts_got as = List.map_filter slot_event gone" "snd q @ sent = acts_taken as @ snd r"
    "list_all2 (holds_event h) (acts_sent as) sent" "length (snd r) \<le> n"
    by auto
  from q_acts.hyps(2) show ?case
  proof cases
    case (q_get slot event inb out)
    then have "fst q @ acts_delivered (as @ [a]) = (gone @ [slot]) @ fst t"
      "acts_got (as @ [a]) = List.map_filter slot_event (gone @ [slot])"
      using IH by (simp_all add: List.map_filter_def)
    with IH q_get show ?thesis by (auto simp del: append_assoc)
  next
    case (q_skip slot inb out)
    then have "fst q @ acts_delivered (as @ [a]) = (gone @ [slot]) @ fst t"
      "acts_got (as @ [a]) = List.map_filter slot_event (gone @ [slot])"
      using IH by (simp_all add: List.map_filter_def)
    with IH q_skip show ?thesis by (auto simp del: append_assoc)
  next
    case (q_send out slot flags kind corr payload inb)
    then have "holds_event h (flags, kind, corr, payload) slot" by (simp add: holds_event_def)
    with IH q_send show ?thesis
      by (auto intro!: exI [of _ "sent @ [slot]"] list_all2_appendI)
  qed (use IH in auto)
qed (auto simp: List.map_filter_def)

section \<open>Properties\<close>

lemma AttachAs_arena: "AttachAs k cls ref = ((Some c, None), es) \<Longrightarrow> c_arena c \<noteq> None"
  by (auto simp: AttachAs_def attach_maps_def attach_views_def Let_def
      split: option.splits sum.splits prod.splits if_splits)

text \<open>
  C24. Type soundness of the client: from a successful attach under the host's layout promise,
  every client reached by any sequence of sends, polls, heartbeats, deliveries, removals and
  host restarts keeps the client invariant. On such a client the heartbeat, the epoch test, the
  control-lost test and every send return; a Poll ends the process exactly when the host is
  still the same and the oldest unread slot decodes to a frame whose inline payload range wraps
  around; and a Detach removes exactly the three mappings.
\<close>

theorem attached_client_sound:
  assumes "AttachAs k cls ref = ((Some c, None), es)"
    and "disjoint_rings (the_qp c)" and "slotSize (Inbound (the_qp c)) = c_slotSize c"
    and "slotSize (Outbound (the_qp c)) = c_slotSize c" and "client_run c as d"
  shows "client_inv d \<and> Heartbeat now d \<noteq> Crash \<and> EpochChanged d \<noteq> Crash \<and> Client_ControlLost d \<noteq> Crash \<and>
    emit flags kind corr payload d \<noteq> Crash \<and> (Poll d = Crash \<longleftrightarrow> poll_crashes d) \<and>
    snd (Detach d) = [Unmapped ControlMap, Unmapped ArenaMap, Unmapped QueueMap]"
proof -
  have "client_inv c" using AttachAs_establishes_inv [OF assms(1-4)] by simp
  from client_run_simulates [OF assms(5) this] have inv: "client_inv d" and shape: "same_shape c d" by simp_all
  have "c_arena d \<noteq> None" using AttachAs_arena [OF assms(1)] shape by (simp add: same_shape_def)
  then have "snd (Detach d) = [Unmapped ControlMap, Unmapped ArenaMap, Unmapped QueueMap]"
    using inv by (simp add: Detach_def client_inv_def)
  then show ?thesis
    using inv Heartbeat_total [OF inv, of now] emit_total [OF inv, of flags kind corr payload]
      Poll_total(1) [OF inv] client_access [OF inv]
    by (auto simp: Client_ControlLost_def)
qed

text \<open>A client that has published an event, which the host has taken, for the samples.\<close>

lemma sample_client_run:
  assumes "the_qp c = sample_qp" and "client_inv c" and "same_epoch c" and "outbound c = []"
    and "c_inlineBudget c = 64" and "c_slotSize c = 128"
  shows "\<exists>slot d. client_run c [Sent_event FNotification 256 0 [1, 2, 3], Taken slot] d"
proof -
  have "emit_result FNotification 256 0 [1, 2, 3] c = None"
    using assms by (simp add: emit_result_def sample_qp_def emit_frame_valid [where pat = PatNotification and frag = False])
  from emit_writes [OF assms(2) this] assms(4) obtain c' slot where
    e: "emit FNotification 256 0 [1, 2, 3] c = Ret (None, c')" and out: "outbound c' = [slot]"
    by (auto simp: outbound_def)
  show ?thesis
    using acts [OF acts [OF stays sends [OF e]] taken [OF out]] by auto
qed

theorem attached_client_sound_witness:
  "\<exists>slot d. client_run sample_attached [Sent_event FNotification 256 0 [1, 2, 3], Taken slot] d \<and>
     client_inv d \<and> snd (Detach d) = [Unmapped ControlMap, Unmapped ArenaMap, Unmapped QueueMap]"
proof -
  have fields: "the_qp sample_attached = sample_qp" "c_slotSize sample_attached = 128"
    "c_inlineBudget sample_attached = 64" "slotSize (Inbound sample_qp) = 128" "slotSize (Outbound sample_qp) = 128"
    by (simp_all add: sample_attached_def sample_client_def the_qp_def sample_qp_def)
  have "same_epoch sample_attached" "outbound sample_attached = []"
    using sample_client_fields(1,2,4)
    by (simp_all add: sample_attached_def same_epoch_def outbound_def the_qp_def the_mem_def)
      (simp add: Control_Epoch_def sample_control_def layout sample_client_def)
  with sample_client_run [OF fields(1) sample_attached_inv] fields obtain slot d where
    run: "client_run sample_attached [Sent_event FNotification 256 0 [1, 2, 3], Taken slot] d" by auto
  with attached_client_sound [OF sample_kernel_attaches _ _ _ run] sample_qp_disjoint
  have "client_inv d" "snd (Detach d) = [Unmapped ControlMap, Unmapped ArenaMap, Unmapped QueueMap]"
    by (simp_all add: fields)
  with run show ?thesis by blast
qed

text \<open>
  C25. The client is two first-in first-out queues: every run of a client and its host is a run
  of an abstract machine with a queue of slots in each direction, the outbound one bounded by
  the ring's capacity. So nothing is lost, duplicated or reordered: the events Poll has handed
  out are, in order, the decodable ones among the slots that are no longer unread, and these
  come first of all that were unread or delivered; and what the host has taken, followed by
  what is still outbound, is what was outbound, followed by one slot for each successful send,
  in order, that holds its frame and payload.
\<close>

theorem client_refines_queues:
  assumes "client_inv c" and "client_run c as d"
  shows "queues_run (c_handle c) (out_limit c) (queues_of c) as (queues_of d) \<and>
    (\<exists>gone. unread c @ acts_delivered as = gone @ unread d \<and> acts_got as = List.map_filter slot_event gone) \<and>
    (\<exists>sent. outbound c @ sent = acts_taken as @ outbound d \<and>
       list_all2 (holds_event (c_handle c)) (acts_sent as) sent) \<and>
    length (outbound d) \<le> out_limit c"
proof -
  have "ring_inv (the_mem c) (Outbound (the_qp c))" using assms(1) by (simp add: client_inv_def pair_inv_def)
  then have "length (snd (queues_of c)) \<le> out_limit c"
    by (simp add: queues_of_def outbound_def out_limit_def ring_inv_def)
  with client_run_simulates [OF assms(2,1)] show ?thesis
    using queues_run_fifo [of "c_handle c" "out_limit c" "queues_of c" as "queues_of d"]
    by (simp add: queues_of_def)
qed

theorem client_refines_queues_witness:
  "\<exists>slot d. client_run sample_client [Sent_event FNotification 256 0 [1, 2, 3], Taken slot] d \<and>
     sub slot 64 3 = [1, 2, 3] \<and> outbound d = []"
proof -
  have "c_inlineBudget sample_client = 64" "c_slotSize sample_client = 128" by (simp_all add: sample_client_def)
  with sample_client_run [OF sample_client_fields(1) sample_client_inv sample_client_fields(3,4)] obtain slot d where
    run: "client_run sample_client [Sent_event FNotification 256 0 [1, 2, 3], Taken slot] d" by auto
  from client_refines_queues [OF sample_client_inv run] obtain sent where
    s: "sent = slot # outbound d" "list_all2 (holds_event (c_handle sample_client)) [(FNotification, 256, 0, [1, 2, 3])] sent"
    by (auto simp: sample_client_fields)
  then have "outbound d = []" "holds_event (c_handle sample_client) (FNotification, 256, 0, [1, 2, 3]) slot"
    by (auto simp: list_all2_Cons1)
  moreover from this(2) have "sub slot 64 (length [1, 2, 3 :: byte]) = [1, 2, 3]"
    using slot_holds_Decode [of slot _ "[1, 2, 3]"] unfolding holds_event_def prod.case by blast
  ultimately show ?thesis using run by (auto simp: numeral_3_eq_3)
qed

end
