(* ===== verification/Module_Reply.thy ===== *)
theory Module_Reply
  imports Module_Stage Client_Sound "HOL-Library.AList"
begin

text \<open>
  The reply path of the module runtime, \<^verbatim>\<open>server-go/bus/module_runtime.go\<close>: validation of the
  process configuration, the wrapper that runs a handler, and the fragmentation of a result
  over the bus with its retry loop. The bus is the \<^verbatim>\<open>moduleBus\<close> interface: a record of
  operations on a world, which \<open>client_bus\<close> fills with the client's. What lies around the
  loop (the clock, the context, sleeping) is a second record. The retry loop may wait for
  ever, so it is a partial function: \<open>None\<close> is not returning.
  Proved here: what goes out is exactly the fragmentation of the result, and a prefix of it
  on an error; the reply returns when the host makes room; it never crashes on the client.
\<close>

section \<open>Configuration\<close>

definition moduleMaxInFlight :: nat where [simp]: "moduleMaxInFlight = 16"

record ModuleStage =
  StageEventKind :: u32
  StageStageID :: u32

record ModuleProcessConfig =
  SocketPath :: string
  ModuleName :: string
  PrincipalClass :: u32
  ConfigPrincipalRef :: u32
  Stages :: "ModuleStage list"
  Handler :: "ModuleHandler option"

text \<open>The Go map from event kinds to stages: a missing key reads as zero.\<close>

type_synonym stage_map = "(u32 \<times> u32) list"

definition stage_of :: "stage_map \<Rightarrow> u32 \<Rightarrow> u32" where
  "stage_of stages kind = (case map_of stages kind of Some s \<Rightarrow> s | None \<Rightarrow> 0)"

fun collect_stages :: "ModuleStage list \<Rightarrow> stage_map \<Rightarrow> err + stage_map" where
  "collect_stages [] stages = Inr stages"
| "collect_stages (stage # rest) stages =
    (if StageEventKind stage = 0 \<or> StageStageID stage = 0 then Inl ErrModuleConfig
     else if map_of stages (StageEventKind stage) \<noteq> None then Inl ErrModuleConfig
     else collect_stages rest (AList.update (StageEventKind stage) (StageStageID stage) stages))"

definition validateModuleConfig :: "ModuleProcessConfig \<Rightarrow> err + stage_map" where
  "validateModuleConfig config =
    (if SocketPath config = [] \<or> ModuleName config = [] \<or> PrincipalClass config = 0 \<or>
        ConfigPrincipalRef config = 0 \<or> length (Stages config) = 0
     then Inl ErrModuleConfig
     else collect_stages (Stages config) [])"

section \<open>Running a handler\<close>

record moduleWork =
  work_eventKind :: u32
  work_correlationID :: u64
  work_invocation :: ModuleInvocation
  work_cancelled :: nat

record moduleResult =
  result_work :: moduleWork
  result_body :: bytes
  result_status :: ModuleStatus

text \<open>
  \<open>check_result\<close> is the test both \<open>runHandler\<close> and \<open>replyModuleResult\<close> start with. The handler
  sees the flags and the time of its run, \<open>runHandler\<close> those after it.
\<close>

definition check_result :: "bytes \<Rightarrow> ModuleStatus \<Rightarrow> bytes \<times> ModuleStatus" where
  "check_result body status =
    (if \<not> validModuleStatus status \<or> length body > unat ModuleMessageMaxBody
     then ([], ModuleStatusInternal)
     else if status \<noteq> ModuleStatusOK then ([], status)
     else (body, status))"

definition runHandler ::
    "moduleWork \<Rightarrow> ModuleHandler \<Rightarrow> bytes \<Rightarrow> flag_store \<Rightarrow> u64 \<Rightarrow> flag_store \<Rightarrow> u64 \<Rightarrow> moduleResult" where
  "runHandler work handler body flags now flags' now' =
    (let (response, status) = handler (work_invocation work) flags now body;
         (response, status) = check_result response status;
         (response, status) =
           (if flags' (work_cancelled work) then ([], ModuleStatusCancelled)
            else if InvDeadlineNS (work_invocation work) \<noteq> 0 \<and> now' \<noteq> 0 \<and>
              now' \<ge> InvDeadlineNS (work_invocation work)
            then ([], ModuleStatusDeadlineExceeded)
            else (response, status))
     in \<lparr>result_work = work, result_body = response, result_status = status\<rparr>)"

section \<open>The bus interface\<close>

record 'w module_bus =
  bus_Poll :: "'w \<Rightarrow> ((err + Event option) \<times> 'w) outcome"
  bus_ReplyFragment :: "u32 \<Rightarrow> u64 \<Rightarrow> bytes \<Rightarrow> bool \<Rightarrow> 'w \<Rightarrow> (err option \<times> 'w) outcome"
  bus_Heartbeat :: "u64 \<Rightarrow> 'w \<Rightarrow> 'w outcome"
  bus_EpochChanged :: "'w \<Rightarrow> bool outcome"
  bus_moduleInlineBudget :: "'w \<Rightarrow> u32"

text \<open>
  The surroundings: the monotonic clock, whether the context is done, the wait for the
  context or a timer (True when the context came first), and a sleep. Waiting is when the
  host and time move on.
\<close>

record 'w module_env =
  env_clock :: "'w \<Rightarrow> (u64 \<times> u64) option"
  env_ctx_done :: "'w \<Rightarrow> bool"
  env_wait :: "'w \<Rightarrow> bool \<times> 'w"
  env_sleep :: "'w \<Rightarrow> 'w"

definition heartbeat_now :: "'w module_bus \<Rightarrow> 'w module_env \<Rightarrow> 'w \<Rightarrow> 'w outcome" where
  "heartbeat_now bus env w =
    (let now = monotonicNowNS (env_clock env w)
     in if now \<noteq> 0 then bus_Heartbeat bus now w else Ret w)"

section \<open>Replying\<close>

text \<open>What happens between two attempts to send: \<open>Inl\<close> gives up, \<open>Inr\<close> tries again.\<close>

definition reply_wait :: "'w module_bus \<Rightarrow> 'w module_env \<Rightarrow> 'w \<Rightarrow> ((err + unit) \<times> 'w) outcome" where
  "reply_wait bus env w =
    (case env_wait env w of
       (True, w) \<Rightarrow> Ret (Inl CtxErr, w)
     | (False, w) \<Rightarrow>
         obind (bus_EpochChanged bus w) (\<lambda>changed.
           if changed then Ret (Inl ErrEpoch, w)
           else obind (heartbeat_now bus env w) (\<lambda>w. Ret (Inr (), w))))"

partial_function (option) reply_retry ::
    "'w module_bus \<Rightarrow> 'w module_env \<Rightarrow> u32 \<Rightarrow> u64 \<Rightarrow> bytes \<Rightarrow> bool \<Rightarrow> 'w \<Rightarrow>
     (err option \<times> 'w) outcome option" where
  "reply_retry bus env kind correlation payload more_frags w =
    (case bus_ReplyFragment bus kind correlation payload more_frags w of
       Crash \<Rightarrow> Some Crash
     | Ret (None, w) \<Rightarrow> Some (Ret (None, w))
     | Ret (Some e, w) \<Rightarrow>
         if \<not> errors_is e ErrWouldBlock then Some (Ret (Some e, w))
         else (case reply_wait bus env w of
             Crash \<Rightarrow> Some Crash
           | Ret (Inl e, w) \<Rightarrow> Some (Ret (Some e, w))
           | Ret (Inr _, w) \<Rightarrow> reply_retry bus env kind correlation payload more_frags w))"

definition reply_message :: "u32 \<Rightarrow> u64 \<Rightarrow> ModuleStatus \<Rightarrow> nat \<Rightarrow> ModuleMessage" where
  "reply_message stageID traceID status part =
    \<lparr>Operation = ModuleOpResult, Status = status, StageID = stageID, Flags = 0,
     BodyLen = of_nat part, DeadlineNS = 0, TraceID = traceID\<rparr>"

definition reply_payload :: "ModuleMessage \<Rightarrow> bytes \<Rightarrow> err + bytes" where
  "reply_payload message chunk =
    (case EncodeMessage message (replicate (ModuleMessageHeaderLen + length chunk) 0) of
       (Inl e, _) \<Rightarrow> Inl e
     | (Inr _, payload) \<Rightarrow> Inr (blit payload ModuleMessageHeaderLen chunk))"

partial_function (option) reply_chunks ::
    "'w module_bus \<Rightarrow> 'w module_env \<Rightarrow> nat \<Rightarrow> u32 \<Rightarrow> u64 \<Rightarrow> u32 \<Rightarrow> u64 \<Rightarrow> ModuleStatus \<Rightarrow> bytes \<Rightarrow>
     nat \<Rightarrow> 'w \<Rightarrow> (err option \<times> 'w) outcome option" where
  "reply_chunks bus env chunkCapacity kind correlation stageID traceID status body offset w =
    (let part = min (length body - offset) chunkCapacity;
         more_frags = (offset + part < length body)
     in case reply_payload (reply_message stageID traceID status part) (sub body offset part) of
          Inl e \<Rightarrow> Some (Ret (Some e, w))
        | Inr payload \<Rightarrow>
            (case reply_retry bus env kind correlation payload more_frags w of
               None \<Rightarrow> None
             | Some Crash \<Rightarrow> Some Crash
             | Some (Ret (Some e, w)) \<Rightarrow> Some (Ret (Some e, w))
             | Some (Ret (None, w)) \<Rightarrow>
                 if more_frags
                 then reply_chunks bus env chunkCapacity kind correlation stageID traceID status
                        body (offset + part) w
                 else Some (Ret (None, w))))"

definition replyModuleResult ::
    "'w module_bus \<Rightarrow> 'w module_env \<Rightarrow> u32 \<Rightarrow> u64 \<Rightarrow> u32 \<Rightarrow> u64 \<Rightarrow> ModuleStatus \<Rightarrow> bytes \<Rightarrow> 'w \<Rightarrow>
     (err option \<times> 'w) outcome option" where
  "replyModuleResult bus env kind correlation stageID traceID status body w =
    (let (body, status) = check_result body status;
         budget = bus_moduleInlineBudget bus w
     in if budget \<le> of_nat ModuleMessageHeaderLen then Some (Ret (Some ErrModuleRuntime, w))
        else reply_chunks bus env (unat budget - ModuleMessageHeaderLen) kind correlation stageID
               traceID status body 0 w)"

definition invalidModuleRequest ::
    "'w module_bus \<Rightarrow> 'w module_env \<Rightarrow> Event \<Rightarrow> u32 \<Rightarrow> u64 \<Rightarrow> 'w \<Rightarrow> (err option \<times> 'w) outcome option" where
  "invalidModuleRequest bus env event stageID traceID w =
    (let stageID = (if stageID = 0 then 1 else stageID)
     in replyModuleResult bus env (EventKind (EventFrame event)) (CorrelationID (EventFrame event))
          stageID traceID ModuleStatusInvalidRequest [] w)"

section \<open>The client as the bus\<close>

definition client_bus :: "Client module_bus" where
  "client_bus = \<lparr>bus_Poll = Poll, bus_ReplyFragment = ReplyFragment, bus_Heartbeat = Heartbeat,
     bus_EpochChanged = EpochChanged, bus_moduleInlineBudget = c_inlineBudget\<rparr>"

section \<open>Fragmentation\<close>

text \<open>What a result looks like on the wire, as a function of the result alone.\<close>

function chunks :: "nat \<Rightarrow> bytes \<Rightarrow> bytes list" where
  "chunks cap body =
    (if cap = 0 \<or> length body \<le> cap then [body] else take cap body # chunks cap (drop cap body))"
  by auto
termination by (relation "measure (\<lambda>(cap, body). length body)") auto

declare chunks.simps [simp del]

type_synonym fragment = "u32 \<times> u64 \<times> bytes \<times> bool"

fun fragments :: "u32 \<Rightarrow> u64 \<Rightarrow> (nat \<Rightarrow> ModuleMessage) \<Rightarrow> bytes list \<Rightarrow> fragment list" where
  "fragments kind correlation message [] = []"
| "fragments kind correlation message (c # cs) =
     (kind, correlation, message_bytes (message (length c)) @ c, cs \<noteq> [])
       # fragments kind correlation message cs"

lemma length_fragments [simp]: "length (fragments kind corr message cs) = length cs"
  by (induction cs) simp_all

lemma chunks_nonempty [simp]: "chunks cap body \<noteq> []"
  by (subst chunks.simps) simp

lemma concat_chunks [simp]: "concat (chunks cap body) = body"
  by (induction cap body rule: chunks.induct) (subst chunks.simps, simp)

lemma chunks_bounded: "0 < cap \<Longrightarrow> c \<in> set (chunks cap body) \<Longrightarrow> length c \<le> cap \<and> length c \<le> length body"
proof (induction cap body rule: chunks.induct)
  case (1 cap body)
  then show ?case
    using chunks.simps [of cap body] by (cases "cap = 0 \<or> length body \<le> cap") auto
qed

lemma reply_message_valid:
  "valid_message (reply_message stageID traceID status n) \<longleftrightarrow>
   validModuleStatus status \<and> stageID \<noteq> 0 \<and> of_nat n \<le> ModuleMessageMaxBody"
  by (auto simp: valid_message_def reply_message_def validModuleStatus_def not_less)

lemma reply_payload_eq:
  "valid_message m \<Longrightarrow> reply_payload m chunk = Inr (message_bytes m @ chunk)"
  by (simp add: reply_payload_def EncodeMessage_layout blit_def)

lemma check_result_valid:
  "check_result body status = (body', status') \<Longrightarrow>
   validModuleStatus status' \<and> length body' \<le> unat ModuleMessageMaxBody \<and>
   (status' \<noteq> ModuleStatusOK \<longrightarrow> body' = [])"
  by (auto simp: check_result_def validModuleStatus_def split: if_splits)

section \<open>A log of what was sent\<close>

text \<open>
  Any bus, with a log of the fragments it accepted. The instrumentation only adds the log to
  the world; it is used to state what a reply puts on the bus, whatever the bus does.
\<close>

definition logged_bus :: "'w module_bus \<Rightarrow> ('w \<times> fragment list) module_bus" where
  "logged_bus bus =
    \<lparr>bus_Poll = (\<lambda>(w, log). obind (bus_Poll bus w) (\<lambda>(r, w). Ret (r, (w, log)))),
     bus_ReplyFragment = (\<lambda>kind correlation payload more_frags (w, log).
       obind (bus_ReplyFragment bus kind correlation payload more_frags w) (\<lambda>(r, w).
         Ret (r, (w, if r = None then log @ [(kind, correlation, payload, more_frags)] else log)))),
     bus_Heartbeat = (\<lambda>now (w, log). obind (bus_Heartbeat bus now w) (\<lambda>w. Ret (w, log))),
     bus_EpochChanged = bus_EpochChanged bus \<circ> fst,
     bus_moduleInlineBudget = bus_moduleInlineBudget bus \<circ> fst\<rparr>"

definition logged_env :: "'w module_env \<Rightarrow> ('w \<times> fragment list) module_env" where
  "logged_env env =
    \<lparr>env_clock = env_clock env \<circ> fst, env_ctx_done = env_ctx_done env \<circ> fst,
     env_wait = (\<lambda>(w, log). let (d, w) = env_wait env w in (d, (w, log))),
     env_sleep = (\<lambda>(w, log). (env_sleep env w, log))\<rparr>"

lemma reply_wait_logged:
  "reply_wait (logged_bus bus) (logged_env env) wl = Ret (r, wl') \<Longrightarrow> snd wl' = snd wl"
  by (cases wl)
    (auto simp: reply_wait_def heartbeat_now_def logged_bus_def logged_env_def Let_def obind_Ret_iff
      split: prod.splits bool.splits if_splits)

lemma reply_retry_logged:
  assumes "reply_retry (logged_bus bus) (logged_env env) kind correlation payload more_frags wl =
    Some (Ret (r, wl'))"
  shows "snd wl' = (if r = None then snd wl @ [(kind, correlation, payload, more_frags)] else snd wl)"
proof -
  let ?P = "\<lambda>b e k c p m wl y. b = logged_bus bus \<longrightarrow> e = logged_env env \<longrightarrow>
    (\<forall>r wl'. y = Ret (r, wl') \<longrightarrow> snd wl' = (if r = None then snd wl @ [(k, c, p, m)] else snd wl))"
  have "?P (logged_bus bus) (logged_env env) kind correlation payload more_frags wl (Ret (r, wl'))"
  proof (rule reply_retry.raw_induct [of ?P])
    fix retry b e k c p m wl y
    assume IH: "\<And>b e k c p m wl y. retry b e k c p m wl = Some y \<Longrightarrow> ?P b e k c p m wl y"
      and eq: "(case bus_ReplyFragment b k c p m wl of
       Crash \<Rightarrow> Some Crash
     | Ret (None, w) \<Rightarrow> Some (Ret (None, w))
     | Ret (Some e', w) \<Rightarrow>
         if \<not> errors_is e' ErrWouldBlock then Some (Ret (Some e', w))
         else (case reply_wait b e w of
             Crash \<Rightarrow> Some Crash
           | Ret (Inl e', w) \<Rightarrow> Some (Ret (Some e', w))
           | Ret (Inr _, w) \<Rightarrow> retry b e k c p m w)) = Some y"
    show "?P b e k c p m wl y"
    proof (intro impI allI)
      fix r wl'
      assume b: "b = logged_bus bus" and e: "e = logged_env env" and y: "y = Ret (r, wl')"
      obtain r1 w1 where send: "bus_ReplyFragment b k c p m wl = Ret (r1, w1)"
        using eq y by (cases "bus_ReplyFragment b k c p m wl") auto
      have log: "snd w1 = (if r1 = None then snd wl @ [(k, c, p, m)] else snd wl)"
        using send by (cases wl) (auto simp: b logged_bus_def obind_Ret_iff)
      show "snd wl' = (if r = None then snd wl @ [(k, c, p, m)] else snd wl)"
      proof (cases "\<exists>e'. r1 = Some e' \<and> errors_is e' ErrWouldBlock")
        case False
        then show ?thesis using eq send log y by (cases r1) auto
      next
        case True
        then obtain r2 w2 where wait: "reply_wait b e w1 = Ret (r2, w2)"
          using eq send y by (cases "reply_wait b e w1") auto
        then have "snd w2 = snd w1" using reply_wait_logged b e by metis
        then show ?thesis
          using True wait eq send log y IH [of b e k c p m w2 y] b e by (cases r2; cases wl') auto
      qed
    qed
  qed (rule assms)
  then show ?thesis by blast
qed

lemma reply_chunks_step:
  assumes "part = min (length body - offset) cap" and "more_frags = (offset + part < length body)"
    and "reply_payload (reply_message stageID traceID status part) (sub body offset part) = Inr payload"
  shows "reply_chunks bus env cap kind correlation stageID traceID status body offset w =
    (case reply_retry bus env kind correlation payload more_frags w of
       None \<Rightarrow> None
     | Some Crash \<Rightarrow> Some Crash
     | Some (Ret (Some e, w)) \<Rightarrow> Some (Ret (Some e, w))
     | Some (Ret (None, w)) \<Rightarrow>
         if more_frags
         then reply_chunks bus env cap kind correlation stageID traceID status body (offset + part) w
         else Some (Ret (None, w)))"
  by (subst reply_chunks.simps) (simp only: Let_def assms(3) assms(1,2) [symmetric] sum.case)

lemma reply_chunks_logged:
  fixes bus :: "'w module_bus" and stageID :: u32 and traceID :: u64 and status :: ModuleStatus
  defines "message \<equiv> reply_message stageID traceID status"
  assumes cap: "0 < cap" and st: "validModuleStatus status" and stage: "stageID \<noteq> 0"
    and len: "length body \<le> unat ModuleMessageMaxBody"
  shows "offset \<le> length body \<Longrightarrow>
    reply_chunks (logged_bus bus) (logged_env env) cap kind correlation stageID traceID status body
      offset wl = Some (Ret (r, wl')) \<Longrightarrow>
    (let frs = fragments kind correlation message (chunks cap (drop offset body)) in
      if r = None then snd wl' = snd wl @ frs
      else \<exists>n < length frs. snd wl' = snd wl @ take n frs)"
proof (induction "length body - offset" arbitrary: offset wl rule: less_induct)
  case less
  define part where "part = min (length body - offset) cap"
  define more where "more \<longleftrightarrow> offset + part < length body"
  define chunk where "chunk = sub body offset part"
  have part: "part \<le> length body" "offset + part \<le> length body" using less.prems by (auto simp: part_def)
  have chunk: "length chunk = part" "chunk = take part (drop offset body)"
    using part by (simp_all add: chunk_def sub_def)
  have "(of_nat part :: u32) \<le> ModuleMessageMaxBody"
    using part len by (simp add: word_le_nat_alt unat_of_nat)
  then have payload: "reply_payload (message part) chunk = Inr (message_bytes (message part) @ chunk)"
    using st stage by (simp add: message_def reply_payload_eq reply_message_valid)
  have frs: "fragments kind correlation message (chunks cap (drop offset body)) =
    (kind, correlation, message_bytes (message part) @ chunk, more) #
      (if more then fragments kind correlation message (chunks cap (drop (offset + part) body)) else [])"
    using cap less.prems chunk chunks.simps [of cap "drop offset body"]
    by (auto simp: part_def more_def min_def add.commute split: if_splits)
  note step = reply_chunks_step [OF part_def more_def, OF payload [unfolded message_def chunk_def],
      folded message_def chunk_def]
  obtain r1 w1 where retry: "reply_retry (logged_bus bus) (logged_env env) kind correlation
      (message_bytes (message part) @ chunk) more wl = Some (Ret (r1, w1))"
    using less.prems(2) unfolding step by (auto split: option.splits outcome.splits)
  note log = reply_retry_logged [OF retry]
  have run: "(case r1 of Some e \<Rightarrow> Some (Ret (Some e, w1)) | None \<Rightarrow>
      if more then reply_chunks (logged_bus bus) (logged_env env) cap kind correlation stageID traceID
        status body (offset + part) w1 else Some (Ret (None, w1))) = Some (Ret (r, wl'))"
    using less.prems(2) unfolding step retry by (simp split: option.splits)
  show ?case
  proof (cases "r1 = None \<and> more")
    case False
    then show ?thesis using run log frs by (auto simp: Let_def split: option.splits)
  next
    case True
    then have smaller: "length body - (offset + part) < length body - offset"
      using cap by (auto simp: more_def part_def)
    from True run have rest: "reply_chunks (logged_bus bus) (logged_env env) cap kind correlation
      stageID traceID status body (offset + part) w1 = Some (Ret (r, wl'))" by simp
    from less.hyps [OF smaller part(2) rest] True log show ?thesis
      unfolding Let_def frs by (auto simp: Ex_less_Suc2)
  qed
qed

text \<open>
  The abstract promise of a reply: a non-empty sequence of fragments of one message, each of
  which decodes on its own and fits the budget, with the more flag on all but the last, whose
  bodies concatenate to the result.
\<close>

definition fragment_body :: "fragment \<Rightarrow> bytes" where
  "fragment_body fr = (case fr of (_, _, payload, _) \<Rightarrow> drop 40 payload)"

definition fragment_more :: "fragment \<Rightarrow> bool" where
  "fragment_more fr = (case fr of (_, _, _, m) \<Rightarrow> m)"

definition fragment_of ::
    "u32 \<Rightarrow> u64 \<Rightarrow> u32 \<Rightarrow> u64 \<Rightarrow> ModuleStatus \<Rightarrow> u32 \<Rightarrow> fragment \<Rightarrow> bool" where
  "fragment_of kind correlation stageID traceID status budget fr =
    (case fr of (k, c, payload, m) \<Rightarrow>
       k = kind \<and> c = correlation \<and> length payload \<le> unat budget \<and>
       DecodeModuleMessage payload =
         Inr (reply_message stageID traceID status (length (fragment_body fr))))"

definition carries ::
    "u32 \<Rightarrow> u64 \<Rightarrow> u32 \<Rightarrow> u64 \<Rightarrow> u32 \<Rightarrow> ModuleStatus \<Rightarrow> bytes \<Rightarrow> fragment list \<Rightarrow> bool" where
  "carries kind correlation stageID traceID budget status body frs \<longleftrightarrow>
     frs \<noteq> [] \<and> concat (map fragment_body frs) = body \<and>
     map fragment_more frs = replicate (length frs - 1) True @ [False] \<and>
     list_all (fragment_of kind correlation stageID traceID status budget) frs"

lemma fragments_more:
  "cs \<noteq> [] \<Longrightarrow> map fragment_more (fragments kind correlation m cs) = replicate (length cs - 1) True @ [False]"
proof (induction cs)
  case (Cons c cs)
  then show ?case by (cases cs) (simp_all add: fragment_more_def)
qed simp

lemma fragments_body:
  "map fragment_body (fragments kind correlation m cs) = cs"
  by (induction cs) (simp_all add: fragment_body_def)

lemma fragments_of:
  assumes st: "validModuleStatus status" and stage: "stageID \<noteq> 0"
  shows "(\<And>c. c \<in> set cs \<Longrightarrow> length c + 40 \<le> unat budget \<and> length c \<le> unat ModuleMessageMaxBody) \<Longrightarrow>
    list_all (fragment_of kind correlation stageID traceID status budget)
      (fragments kind correlation (reply_message stageID traceID status) cs)"
proof (induction cs)
  case (Cons c cs)
  from Cons.prems [of c] have c: "40 + length c \<le> unat budget" "length c \<le> 16777216" by simp_all
  then have "unat (of_nat (length c) :: u32) = length c" by (simp add: unat_of_nat)
  with c st stage have "valid_message (reply_message stageID traceID status (length c))"
    "unat (BodyLen (reply_message stageID traceID status (length c))) = length c"
    by (simp_all add: reply_message_valid word_le_nat_alt) (simp add: reply_message_def)
  with Cons c show ?case
    by (simp add: fragment_of_def fragment_body_def Decode_message_bytes)
qed simp

lemma carries_chunks:
  assumes "validModuleStatus status" and "stageID \<noteq> 0" and "length body \<le> unat ModuleMessageMaxBody"
    and "40 < unat budget"
  shows "carries kind correlation stageID traceID budget status body
    (fragments kind correlation (reply_message stageID traceID status) (chunks (unat budget - 40) body))"
proof -
  have "length c + 40 \<le> unat budget \<and> length c \<le> unat ModuleMessageMaxBody"
    if "c \<in> set (chunks (unat budget - 40) body)" for c
    using chunks_bounded [OF _ that] assms by (simp add: less_diff_conv2 le_diff_conv2)
  then have "list_all (fragment_of kind correlation stageID traceID status budget)
      (fragments kind correlation (reply_message stageID traceID status) (chunks (unat budget - 40) body))"
    by (rule fragments_of [OF assms(1,2)])
  moreover have "fragments kind correlation m cs \<noteq> []" if "cs \<noteq> []" for m cs
    using that by (cases cs) simp_all
  ultimately show ?thesis
    by (simp only: carries_def fragments_more fragments_body concat_chunks length_fragments
        chunks_nonempty not_False_eq_True simp_thms)
qed

section \<open>The contract of a module bus\<close>

text \<open>
  What the runtime relies on: as long as the invariant of the bus holds, replying, the
  heartbeat and the epoch test return and keep it. (Poll is left out: it can panic on hostile
  input, see \<open>Poll_panics_on_wrapping_payload\<close>.) The surroundings keep the invariant too.
\<close>

locale reply_bus =
  fixes bus :: "'w module_bus" and inv :: "'w \<Rightarrow> bool"
  assumes send: "inv w \<Longrightarrow> \<exists>r w'. bus_ReplyFragment bus kind correlation payload m w = Ret (r, w') \<and> inv w'"
    and beat: "inv w \<Longrightarrow> \<exists>w'. bus_Heartbeat bus now w = Ret w' \<and> inv w'"
    and epoch: "inv w \<Longrightarrow> \<exists>b. bus_EpochChanged bus w = Ret b"
begin

definition env_keeps :: "'w module_env \<Rightarrow> bool" where
  "env_keeps env \<longleftrightarrow> (\<forall>w. inv w \<longrightarrow> inv (snd (env_wait env w)) \<and> inv (env_sleep env w))"

lemma heartbeat_now: "inv w \<Longrightarrow> \<exists>w'. heartbeat_now bus env w = Ret w' \<and> inv w'"
  using beat by (auto simp: heartbeat_now_def Let_def)

lemma reply_wait:
  assumes "env_keeps env" and "inv w"
  shows "\<exists>r w'. reply_wait bus env w = Ret (r, w') \<and> inv w'"
proof -
  obtain d w1 where wait: "env_wait env w = (d, w1)" by (metis surj_pair)
  then have "inv w1" using assms unfolding env_keeps_def by (metis snd_conv)
  then obtain changed w2 where "bus_EpochChanged bus w1 = Ret changed" "Module_Reply.heartbeat_now bus env w1 = Ret w2"
    "inv w1" "inv w2"
    using epoch heartbeat_now by blast
  with wait show ?thesis
    by (cases d; cases changed) (simp_all add: Module_Reply.reply_wait_def)
qed

lemma reply_retry_safe:
  assumes env: "env_keeps env" and "inv w"
    and res: "reply_retry bus env kind correlation payload m w = Some res"
  shows "\<exists>r w'. res = Ret (r, w') \<and> inv w'"
proof -
  let ?P = "\<lambda>b e k c p m w y. b = bus \<longrightarrow> e = env \<longrightarrow> inv w \<longrightarrow> (\<exists>r w'. y = Ret (r, w') \<and> inv w')"
  have "?P bus env kind correlation payload m w res"
  proof (rule reply_retry.raw_induct [of ?P])
    fix retry b e k c p m w y
    assume IH: "\<And>b e k c p m w y. retry b e k c p m w = Some y \<Longrightarrow> ?P b e k c p m w y"
      and eq: "(case bus_ReplyFragment b k c p m w of
       Crash \<Rightarrow> Some Crash
     | Ret (None, w) \<Rightarrow> Some (Ret (None, w))
     | Ret (Some e', w) \<Rightarrow>
         if \<not> errors_is e' ErrWouldBlock then Some (Ret (Some e', w))
         else (case reply_wait b e w of
             Crash \<Rightarrow> Some Crash
           | Ret (Inl e', w) \<Rightarrow> Some (Ret (Some e', w))
           | Ret (Inr _, w) \<Rightarrow> retry b e k c p m w)) = Some y"
    show "?P b e k c p m w y"
    proof (intro impI)
      assume b: "b = bus" and e: "e = env" and inv: "inv w"
      obtain r1 w1 where s: "bus_ReplyFragment bus k c p m w = Ret (r1, w1)" "inv w1"
        using send [OF inv] by blast
      obtain r2 w2 where t: "reply_wait bus env w1 = Ret (r2, w2)" "inv w2"
        using reply_wait [OF env s(2)] by blast
      show "\<exists>r w'. y = Ret (r, w') \<and> inv w'"
        using eq s(2) t(2) IH [of bus env k c p m w2 y] unfolding b e
        by (cases r1; cases r2) (auto simp: s(1) t(1) split: if_splits)
    qed
  qed (rule res)
  with assms show ?thesis by blast
qed

lemma reply_chunks_safe:
  assumes env: "env_keeps env" and cap: "0 < cap"
  shows "inv w \<Longrightarrow>
    reply_chunks bus env cap kind correlation stageID traceID status body offset w = Some res \<Longrightarrow>
    \<exists>r w'. res = Ret (r, w') \<and> inv w'"
proof (induction "length body - offset" arbitrary: offset w rule: less_induct)
  case less
  define part where "part = min (length body - offset) cap"
  define more where "more \<longleftrightarrow> offset + part < length body"
  show ?case
  proof (cases "reply_payload (reply_message stageID traceID status part) (sub body offset part)")
    case (Inl e)
    then have "res = Ret (Some e, w)"
      using less.prems(2) by (subst (asm) reply_chunks.simps) (simp add: Let_def part_def)
    with less.prems(1) show ?thesis by blast
  next
    case (Inr payload)
    note step = reply_chunks_step [OF part_def more_def Inr]
    from less.prems(2) obtain res1 where r: "reply_retry bus env kind correlation payload more w = Some res1"
      unfolding step by (auto split: option.splits)
    from reply_retry_safe [OF env less.prems(1) r] obtain r1 w1 where r1: "res1 = Ret (r1, w1)" "inv w1"
      by blast
    show ?thesis
    proof (cases "r1 = None \<and> more")
      case False
      then show ?thesis
        using less.prems(2) r1 unfolding step r by (auto split: option.splits)
    next
      case True
      then have "length body - (offset + part) < length body - offset"
        using cap by (auto simp: more_def part_def)
      moreover have "reply_chunks bus env cap kind correlation stageID traceID status body (offset + part) w1 = Some res"
        using True less.prems(2) r1 unfolding step r by simp
      ultimately show ?thesis using less.hyps r1(2) by blast
    qed
  qed
qed

text \<open>
  A reply returns when waiting makes progress: some measure of what is in the way goes down
  with every wait that follows a full bus.
\<close>

definition progress :: "'w module_env \<Rightarrow> ('w \<Rightarrow> nat) \<Rightarrow> bool" where
  "progress env in_the_way \<longleftrightarrow>
    (\<forall>kind correlation payload m w e w1 w2. inv w \<longrightarrow>
      bus_ReplyFragment bus kind correlation payload m w = Ret (Some e, w1) \<longrightarrow>
      errors_is e ErrWouldBlock \<longrightarrow> reply_wait bus env w1 = Ret (Inr (), w2) \<longrightarrow>
      in_the_way w2 < in_the_way w)"

lemma reply_retry_returns:
  assumes env: "env_keeps env" and prog: "progress env in_the_way"
  shows "inv w \<Longrightarrow> \<exists>res. reply_retry bus env kind correlation payload m w = Some res"
proof (induction "in_the_way w" arbitrary: w rule: less_induct)
  case less
  obtain r1 w1 where s: "bus_ReplyFragment bus kind correlation payload m w = Ret (r1, w1)" "inv w1"
    using send [OF less.prems] by blast
  obtain r2 w2 where t: "reply_wait bus env w1 = Ret (r2, w2)" "inv w2"
    using reply_wait [OF env s(2)] by blast
  show ?case
  proof (cases "\<exists>e. r1 = Some e \<and> errors_is e ErrWouldBlock \<and> r2 = Inr ()")
    case True
    then have "in_the_way w2 < in_the_way w"
      using prog s t less.prems unfolding progress_def by blast
    from less.hyps [OF this t(2)] True show ?thesis
      by (subst reply_retry.simps) (auto simp: s t)
  next
    case False
    then show ?thesis
      by (subst reply_retry.simps) (auto simp: s t split: option.splits sum.splits)
  qed
qed

lemma reply_chunks_returns:
  assumes env: "env_keeps env" and prog: "progress env in_the_way" and cap: "0 < cap"
  shows "inv w \<Longrightarrow>
    \<exists>res. reply_chunks bus env cap kind correlation stageID traceID status body offset w = Some res"
proof (induction "length body - offset" arbitrary: offset w rule: less_induct)
  case less
  define part where "part = min (length body - offset) cap"
  define more where "more \<longleftrightarrow> offset + part < length body"
  show ?case
  proof (cases "reply_payload (reply_message stageID traceID status part) (sub body offset part)")
    case (Inl e)
    then show ?thesis by (subst reply_chunks.simps) (simp add: Let_def part_def)
  next
    case (Inr payload)
    note step = reply_chunks_step [OF part_def more_def Inr]
    obtain res1 where r: "reply_retry bus env kind correlation payload more w = Some res1"
      using reply_retry_returns [OF env prog less.prems] by blast
    from reply_retry_safe [OF env less.prems r] obtain r1 w1 where r1: "res1 = Ret (r1, w1)" "inv w1"
      by blast
    have "more \<Longrightarrow> length body - (offset + part) < length body - offset"
      using cap by (auto simp: more_def part_def)
    with less.hyps r1(2) show ?thesis
      unfolding step r r1(1) by (cases r1) auto
  qed
qed

lemma replyModuleResult_safe:
  assumes "env_keeps env" and "inv w"
    and "replyModuleResult bus env kind correlation stageID traceID status body w = Some res"
  shows "\<exists>r w'. res = Ret (r, w') \<and> inv w'"
proof (cases "bus_moduleInlineBudget bus w \<le> 40")
  case True
  then show ?thesis using assms by (auto simp: replyModuleResult_def Let_def split: prod.splits)
next
  case False
  then have cap: "0 < unat (bus_moduleInlineBudget bus w) - 40" by (simp add: word_le_nat_alt)
  obtain body' status' where "check_result body status = (body', status')" by (metis surj_pair)
  with False assms(3) have "reply_chunks bus env (unat (bus_moduleInlineBudget bus w) - 40) kind
      correlation stageID traceID status' body' 0 w = Some res"
    by (simp add: replyModuleResult_def Let_def)
  from reply_chunks_safe [OF assms(1) cap assms(2) this] show ?thesis .
qed

lemma replyModuleResult_returns:
  assumes "env_keeps env" and "progress env in_the_way" and "inv w"
  shows "\<exists>r w'. replyModuleResult bus env kind correlation stageID traceID status body w =
    Some (Ret (r, w')) \<and> inv w'"
proof -
  have "\<exists>res. replyModuleResult bus env kind correlation stageID traceID status body w = Some res"
  proof (cases "bus_moduleInlineBudget bus w \<le> 40")
    case False
    then have "0 < unat (bus_moduleInlineBudget bus w) - 40" by (simp add: word_le_nat_alt)
    with False reply_chunks_returns [OF assms(1,2) this assms(3)] show ?thesis
      by (simp add: replyModuleResult_def Let_def split: prod.splits)
  qed (simp add: replyModuleResult_def Let_def split: prod.splits)
  then show ?thesis using replyModuleResult_safe [OF assms(1,3)] by blast
qed

end

interpretation client_bus: reply_bus client_bus client_inv
proof unfold_locales
  fix c c' :: Client and kind :: u32 and correlation :: u64 and payload m r now
  assume "client_inv c"
  then show "\<exists>r c'. bus_ReplyFragment client_bus kind correlation payload m c = Ret (r, c') \<and> client_inv c'"
    and "\<exists>c'. bus_Heartbeat client_bus now c = Ret c' \<and> client_inv c'"
    and "\<exists>b. bus_EpochChanged client_bus c = Ret b"
    using ReplyFragment_total [of c kind correlation payload m] Heartbeat_total [of c now]
      client_access(1) [of c]
    by (simp_all add: client_bus_def) blast
qed

section \<open>Properties\<close>

text \<open>A short answer goes out at once on the sample client.\<close>

lemma sample_client_replies:
  assumes "stageID \<noteq> 0" and "0 < status" and "status \<le> ModuleStatusInternal" and "correlation \<noteq> 0"
  shows "\<exists>w'. replyModuleResult client_bus env kind correlation stageID traceID status [] sample_client =
    Some (Ret (None, w'))"
proof -
  let ?m = "reply_message stageID traceID status 0"
  have "emit_result FReply kind correlation (message_bytes ?m) sample_client = None"
    using assms(4)
    by (simp add: emit_result_def sample_client_fields)
      (simp add: sample_client_def sample_qp_def emit_frame_valid [where pat = PatReply and frag = False])
  then obtain mem where "emit FReply kind correlation (message_bytes ?m) sample_client =
      Ret (None, sample_client\<lparr>c_qpMem := Some mem\<rparr>)"
    using emit_writes [OF sample_client_inv] by blast
  then have "ReplyFragment kind correlation (message_bytes ?m) False sample_client =
      Ret (None, sample_client\<lparr>c_qpMem := Some mem\<rparr>)"
    using assms(4) by (simp add: ReplyFragment_def send_fragment_def)
  then have retry: "reply_retry client_bus env kind correlation (message_bytes ?m) False sample_client =
      Some (Ret (None, sample_client\<lparr>c_qpMem := Some mem\<rparr>))"
    by (subst reply_retry.simps) (simp add: client_bus_def)
  have "reply_payload ?m (sub [] 0 0) = Inr (message_bytes ?m)"
    using assms(1,3) by (simp add: reply_payload_eq reply_message_valid validModuleStatus_def)
  then have "reply_chunks client_bus env 24 kind correlation stageID traceID status [] 0 sample_client =
      Some (Ret (None, sample_client\<lparr>c_qpMem := Some mem\<rparr>))"
    using retry by (subst reply_chunks_step [where part = 0 and more_frags = False and payload = "message_bytes ?m"]) simp_all
  moreover have "c_inlineBudget sample_client = 64" by (simp add: sample_client_def)
  ultimately show ?thesis
    using assms(2,3) by (simp add: replyModuleResult_def check_result_def validModuleStatus_def client_bus_def word_gt_0)
qed

lemma reply_carries:
  assumes "replyModuleResult (logged_bus bus) (logged_env env) kind correlation stageID traceID status body
      (w, []) = Some (Ret (r, (w', log)))"
    and "stageID \<noteq> 0"
  shows "if bus_moduleInlineBudget bus w \<le> 40 then r = Some ErrModuleRuntime \<and> log = []
    else \<exists>frs. carries kind correlation stageID traceID (bus_moduleInlineBudget bus w)
          (snd (check_result body status)) (fst (check_result body status)) frs \<and>
        (if r = None then log = frs else \<exists>n < length frs. log = take n frs)"
proof (cases "bus_moduleInlineBudget bus w \<le> 40")
  case True
  then show ?thesis
    using assms(1) by (auto simp: replyModuleResult_def logged_bus_def Let_def split: prod.splits)
next
  case False
  let ?b = "bus_moduleInlineBudget bus w"
  obtain body' status' where c: "check_result body status = (body', status')" by (metis surj_pair)
  note valid = check_result_valid [OF c]
  from False have cap: "0 < unat ?b - 40" "40 < unat ?b" by (simp_all add: word_le_nat_alt)
  from False assms(1) c have run: "reply_chunks (logged_bus bus) (logged_env env) (unat ?b - 40) kind
      correlation stageID traceID status' body' 0 (w, []) = Some (Ret (r, (w', log)))"
    by (simp add: replyModuleResult_def Let_def) (simp add: logged_bus_def)
  let ?frs = "fragments kind correlation (reply_message stageID traceID status') (chunks (unat ?b - 40) body')"
  have "if r = None then log = ?frs else \<exists>n < length ?frs. log = take n ?frs"
    using reply_chunks_logged [OF cap(1) _ assms(2) _ _ run] valid by (cases r) (simp_all add: Let_def)
  moreover have "carries kind correlation stageID traceID ?b status' body' ?frs"
    using carries_chunks [OF _ assms(2) _ cap(2)] valid by blast
  ultimately show ?thesis
    unfolding if_not_P [OF False] c fst_conv snd_conv by blast
qed

text \<open>
  C26. A reply puts on the bus exactly the result it was given: whatever the bus does, the
  fragments accepted from one call are a prefix of a fixed sequence, all of it when the call
  succeeds and a proper prefix when it fails. That sequence carries the checked result: each
  fragment decodes on its own to the result's status, stage and trace and fits the inline
  budget, the more flag is on all but the last, and the bodies concatenate to the body (empty
  for every status but OK; an oversized body or an unknown status goes out as Internal).
\<close>

theorem replyModuleResult_carries:
  assumes "replyModuleResult (logged_bus bus) (logged_env env) kind correlation stageID traceID status body
      (w, []) = Some (Ret (r, (w', log)))"
    and "stageID \<noteq> 0"
  shows "if bus_moduleInlineBudget bus w \<le> 40 then r = Some ErrModuleRuntime \<and> log = []
    else \<exists>frs. carries kind correlation stageID traceID (bus_moduleInlineBudget bus w)
          (snd (check_result body status)) (fst (check_result body status)) frs \<and>
        (if r = None then log = frs else \<exists>n < length frs. log = take n frs)"
  by (rule reply_carries [OF assms])

text \<open>Surroundings for the samples: time stands still and the host takes nothing.\<close>

definition idle_env :: "'w module_env" where
  "idle_env = \<lparr>env_clock = (\<lambda>_. None), env_ctx_done = (\<lambda>_. False),
     env_wait = (\<lambda>w. (False, w)), env_sleep = (\<lambda>w. w)\<rparr>"

text \<open>And a host that takes the oldest slot of the outbound ring whenever the module waits.\<close>

definition host_takes :: "Client \<Rightarrow> Client" where
  "host_takes c = (if client_inv c \<and> outbound c \<noteq> []
     then c\<lparr>c_qpMem := Some (ConsumeCommit (Outbound (the_qp c)) (the_mem c))\<rparr> else c)"

definition taking_env :: "Client module_env" where
  "taking_env = idle_env\<lparr>env_wait := (\<lambda>c. (False, host_takes c))\<rparr>"

lemma host_takes:
  assumes inv: "client_inv c"
  shows "client_inv (host_takes c)" and "outbound (host_takes c) = tl (outbound c)"
proof -
  let ?q = "the_qp c" and ?m = "the_mem c"
  have p: "pair_inv ?m ?q" and ri: "ring_inv ?m (Outbound ?q)"
    using inv by (simp_all add: client_inv_def pair_inv_def)
  have "client_inv (host_takes c) \<and> outbound (host_takes c) = tl (outbound c)"
  proof (cases "outbound c = []")
    case False
    then have "Count ?m (Outbound ?q) \<noteq> 0" by (simp add: outbound_def ring_items_Nil)
    note cc = ConsumeCommit_items [OF ri this]
    note pr = pair_inv_ring [OF p _ agree_ConsumeCommit [OF ri] cc(2), of "Inbound ?q"]
    show ?thesis
      using inv pr cc False by (auto simp: host_takes_def outbound_def client_inv_def)
  qed (use inv in \<open>simp add: host_takes_def\<close>)
  then show "client_inv (host_takes c)" and "outbound (host_takes c) = tl (outbound c)" by simp_all
qed

lemma sample_reply_run:
  "\<exists>w'. replyModuleResult (logged_bus client_bus) (logged_env idle_env) 256 7 3 9 0 [1, 2, 3] (sample_client, []) =
    Some (Ret (None, (w', [(256, 7, message_bytes (reply_message 3 9 0 3) @ [1, 2, 3], False)])))"
proof -
  let ?m = "reply_message 3 9 0 3"
  let ?p = "message_bytes ?m @ [1, 2, 3]"
  have valid: "valid_message ?m" by (simp add: reply_message_valid validModuleStatus_def)
  have "emit_result FReply 256 7 ?p sample_client = None"
    by (simp add: emit_result_def sample_client_fields)
      (simp add: sample_client_def sample_qp_def emit_frame_valid [where pat = PatReply and frag = False])
  then obtain mem where "emit FReply 256 7 ?p sample_client = Ret (None, sample_client\<lparr>c_qpMem := Some mem\<rparr>)"
    using emit_writes [OF sample_client_inv] by blast
  then have "ReplyFragment 256 7 ?p False sample_client = Ret (None, sample_client\<lparr>c_qpMem := Some mem\<rparr>)"
    by (simp add: ReplyFragment_def send_fragment_def)
  then have retry: "reply_retry (logged_bus client_bus) (logged_env idle_env) 256 7 ?p False (sample_client, []) =
      Some (Ret (None, (sample_client\<lparr>c_qpMem := Some mem\<rparr>, [(256, 7, ?p, False)])))"
    by (subst reply_retry.simps) (simp add: logged_bus_def client_bus_def)
  have budget: "c_inlineBudget sample_client = 64" by (simp add: sample_client_def)
  have "reply_payload ?m (sub [1, 2, 3] 0 3) = Inr ?p"
    using valid by (simp add: reply_payload_eq)
  then have "reply_chunks (logged_bus client_bus) (logged_env idle_env) 24 256 7 3 9 0 [1, 2, 3] 0 (sample_client, []) =
      Some (Ret (None, (sample_client\<lparr>c_qpMem := Some mem\<rparr>, [(256, 7, ?p, False)])))"
    using retry by (subst reply_chunks_step [where part = 3 and more_frags = False and payload = ?p]) simp_all
  then have "replyModuleResult (logged_bus client_bus) (logged_env idle_env) 256 7 3 9 0 [1, 2, 3]
      (sample_client, []) = Some (Ret (None, (sample_client\<lparr>c_qpMem := Some mem\<rparr>, [(256, 7, ?p, False)])))"
    by (simp add: replyModuleResult_def check_result_def validModuleStatus_def logged_bus_def client_bus_def budget)
  then show ?thesis by blast
qed

theorem replyModuleResult_carries_witness:
  "\<exists>w' log. replyModuleResult (logged_bus client_bus) (logged_env idle_env) 256 7 3 9 0 [1, 2, 3]
      (sample_client, []) = Some (Ret (None, (w', log))) \<and> concat (map fragment_body log) = [1, 2, 3]"
proof -
  obtain w' log where run: "replyModuleResult (logged_bus client_bus) (logged_env idle_env) 256 7 3 9 0 [1, 2, 3]
      (sample_client, []) = Some (Ret (None, (w', log)))"
    using sample_reply_run by blast
  have "\<not> bus_moduleInlineBudget client_bus sample_client \<le> 40" by (simp add: client_bus_def sample_client_def)
  then have "concat (map fragment_body log) = fst (check_result [1, 2, 3] 0)"
    using replyModuleResult_carries [OF run] by (simp add: carries_def split: if_splits)
  with run show ?thesis by (fastforce simp: check_result_def validModuleStatus_def)
qed

text \<open>
  C27. A reply returns, and never ends the process: on an attached client, as long as every wait
  that follows a full ring brings some measure down (the host takes slots, say), the reply
  comes back with success or an error and the client still in its invariant.
\<close>

theorem replyModuleResult_terminates:
  assumes "client_inv c" and "client_bus.env_keeps env" and "client_bus.progress env in_the_way"
  shows "\<exists>r c'. replyModuleResult client_bus env kind correlation stageID traceID status body c =
    Some (Ret (r, c')) \<and> client_inv c'"
  by (rule client_bus.replyModuleResult_returns [OF assms(2,3,1)])

lemma taking_env_keeps: "client_bus.env_keeps taking_env"
  by (simp add: client_bus.env_keeps_def taking_env_def idle_env_def host_takes)

lemma taking_env_progress: "client_bus.progress taking_env (length \<circ> outbound)"
  unfolding client_bus.progress_def
proof (intro allI impI)
  fix kind :: u32 and correlation :: u64 and payload m c e c1 c2
  assume inv: "client_inv c" and block: "errors_is e ErrWouldBlock"
    and send: "bus_ReplyFragment client_bus kind correlation payload m c = Ret (Some e, c1)"
    and wait: "reply_wait client_bus taking_env c1 = Ret (Inr (), c2)"
  have "\<exists>flags. emit flags kind correlation payload c = Ret (Some e, c1)"
    using send block by (auto simp: client_bus_def ReplyFragment_def send_fragment_def split: if_splits)
  then obtain flags where emit: "emit flags kind correlation payload c = Ret (Some e, c1)" by blast
  have "c1 = c \<and> emit_result flags kind correlation payload c = Some e"
  proof (cases "emit_result flags kind correlation payload c")
    case None
    with emit_writes [OF inv None] emit show ?thesis by auto
  next
    case (Some e')
    with emit_refuses [OF inv Some] emit show ?thesis by simp
  qed
  then have c1: "c1 = c" and "emit_result flags kind correlation payload c = Some e" by simp_all
  then have "length (outbound c) = unat (capacity (Outbound (the_qp c)))"
    using block by (auto simp: emit_result_def split: if_splits)
  then have "0 < length (outbound c)"
    using inv capacity_bounds [of "Outbound (the_qp c)"]
    by (simp add: client_inv_def pair_inv_def ring_inv_def)
  moreover have "c2 = host_takes c"
    using wait client_access(1) [OF host_takes(1) [OF inv]]
    by (auto simp: reply_wait_def c1 taking_env_def idle_env_def client_bus_def heartbeat_now_def
        monotonicNowNS_def split: if_splits)
  ultimately show "(length \<circ> outbound) c2 < (length \<circ> outbound) c"
    using host_takes(2) [OF inv] by simp
qed

theorem replyModuleResult_terminates_witness:
  "\<exists>r c'. replyModuleResult client_bus taking_env 256 7 3 9 0 [1, 2, 3] sample_client = Some (Ret (r, c'))"
  using replyModuleResult_terminates [OF sample_client_inv taking_env_keeps taking_env_progress] by blast

text \<open>
  The runtime corrects every handler: whatever a handler returns, the result it queues has
  a known status and no body unless the status is OK, and the body then is the handler's and
  fits a message; a set cancel flag gives Cancelled and, failing that, an expired deadline
  gives DeadlineExceeded, whatever the handler said.
\<close>

lemma runHandler_result:
  "let r = runHandler work handler body flags now flags' now';
       (response, status) = handler (work_invocation work) flags now body;
       deadline = InvDeadlineNS (work_invocation work);
       expired = (deadline \<noteq> 0 \<and> now' \<noteq> 0 \<and> deadline \<le> now')
   in result_work r = work \<and> validModuleStatus (result_status r) \<and>
      (if flags' (work_cancelled work) then result_status r = ModuleStatusCancelled \<and> result_body r = []
       else if expired then result_status r = ModuleStatusDeadlineExceeded \<and> result_body r = []
       else if status \<le> ModuleStatusInternal \<and> length response \<le> unat ModuleMessageMaxBody
       then result_status r = status \<and> result_body r = (if status = ModuleStatusOK then response else [])
       else result_status r = ModuleStatusInternal \<and> result_body r = [])"
  by (cases "handler (work_invocation work) flags now body")
    (auto simp: runHandler_def Let_def check_result_def validModuleStatus_def)

lemma collect_stages_spec:
  "collect_stages ss m = Inr m' \<longleftrightarrow>
     (\<forall>s \<in> set ss. StageEventKind s \<noteq> 0 \<and> StageStageID s \<noteq> 0 \<and> map_of m (StageEventKind s) = None) \<and>
     distinct (map StageEventKind ss) \<and>
     m' = foldl (\<lambda>m s. AList.update (StageEventKind s) (StageStageID s) m) m ss"
  by (induction ss m rule: collect_stages.induct) (auto simp: update_conv' image_iff)

lemma collect_stages_error: "collect_stages ss m = Inl e \<Longrightarrow> e = ErrModuleConfig"
  by (induction ss m rule: collect_stages.induct) (auto split: if_splits)

lemma stage_of_collected:
  "distinct (map StageEventKind ss) \<Longrightarrow>
   \<forall>s \<in> set ss. map_of m (StageEventKind s) = None \<Longrightarrow>
   stage_of (foldl (\<lambda>m s. AList.update (StageEventKind s) (StageStageID s) m) m ss) kind =
     (case find (\<lambda>s. StageEventKind s = kind) ss of Some s \<Rightarrow> StageStageID s | None \<Rightarrow> stage_of m kind)"
proof (induction ss arbitrary: m)
  case (Cons s ss)
  have none: "find (\<lambda>s. StageEventKind s = kind) ss = None" if "StageEventKind s = kind"
    using Cons.prems(1) that by (auto simp: find_None_iff) (metis imageI)
  have "\<forall>s' \<in> set ss. map_of (AList.update (StageEventKind s) (StageStageID s) m) (StageEventKind s') = None"
    using Cons.prems by (auto simp: update_conv') (metis imageI)
  with Cons.IH Cons.prems none show ?case
    by (auto simp: stage_of_def update_conv' split: option.splits)
qed simp

lemma stage_of_Nil [simp]: "stage_of [] kind = 0"
  by (simp add: stage_of_def)

definition config_complete :: "ModuleProcessConfig \<Rightarrow> bool" where
  "config_complete config \<longleftrightarrow>
     SocketPath config \<noteq> [] \<and> ModuleName config \<noteq> [] \<and> PrincipalClass config \<noteq> 0 \<and>
     ConfigPrincipalRef config \<noteq> 0 \<and> Stages config \<noteq> [] \<and>
     list_all (\<lambda>s. StageEventKind s \<noteq> 0 \<and> StageStageID s \<noteq> 0) (Stages config) \<and>
     distinct (map StageEventKind (Stages config))"

text \<open>
  C28. The configuration check is exact: a configuration is accepted if and only if it names a
  socket, a module and a principal and lists at least one stage, with non-zero kinds and stage
  ids and no kind twice; the stage map then answers every listed kind with its stage and any
  other kind with zero.
\<close>

theorem validateModuleConfig_exact:
  "case validateModuleConfig config of
     Inl e \<Rightarrow> e = ErrModuleConfig \<and> \<not> config_complete config
   | Inr stages \<Rightarrow> config_complete config \<and>
       (\<forall>kind. stage_of stages kind =
          (case find (\<lambda>s. StageEventKind s = kind) (Stages config) of
             Some s \<Rightarrow> StageStageID s | None \<Rightarrow> 0))"
proof (cases "validateModuleConfig config")
  case (Inl e)
  then have "e = ErrModuleConfig"
    by (auto simp: validateModuleConfig_def collect_stages_error split: if_splits)
  moreover have "\<not> (\<exists>m. collect_stages (Stages config) [] = Inr m)" if
    "SocketPath config \<noteq> []" "ModuleName config \<noteq> []" "PrincipalClass config \<noteq> 0"
    "ConfigPrincipalRef config \<noteq> 0" "Stages config \<noteq> []"
    using Inl that by (simp add: validateModuleConfig_def)
  ultimately show ?thesis
    using Inl unfolding collect_stages_spec config_complete_def by (auto simp: list_all_iff)
next
  case (Inr stages)
  then have c: "collect_stages (Stages config) [] = Inr stages"
    by (simp add: validateModuleConfig_def split: if_splits)
  from Inr c [unfolded collect_stages_spec] stage_of_collected [of "Stages config" "[]"] show ?thesis
    by (simp add: validateModuleConfig_def config_complete_def list_all_iff split: if_splits option.splits)
qed

end
