(* ===== verification/Module_Runtime.thy ===== *)
theory Module_Runtime
  imports Module_Reply "HOL-Library.Multiset"
begin

text \<open>
  The serving loop of a module, \<open>runModuleClient\<close> in \<^verbatim>\<open>server-go/bus/module_runtime.go\<close>: the
  assembly of fragmented requests, dispatch to handlers that run in goroutines of their own,
  cancellation, and shutdown. One pass of the loop is a function; passes, the finishing of
  handlers and anything the host does to the bus interleave as a step relation.
  Proved here: the tables stay within their bounds and no send on the result channel blocks;
  a fragmented request reaches the handler as the concatenation of its bodies; a cancelled
  job is answered Cancelled; shutdown does not deadlock; and the way an oversized request is
  rejected lets its tail through as a request of its own.
\<close>

section \<open>State\<close>

record moduleAssembly =
  asm_eventKind :: u32
  asm_message :: ModuleMessage
  asm_body :: bytes

text \<open>
  The loop's variables, and what it shares with the handlers' goroutines: the handlers still
  running with their request bodies, the result channel, and the cells of the cancel flags,
  allocated one after another.
\<close>

record runtime =
  rt_assemblies :: "(u64 \<times> moduleAssembly) list"
  rt_jobs :: "(u64 \<times> moduleWork) list"
  rt_done :: "moduleResult list"
  rt_running :: "(moduleWork \<times> bytes) list"
  rt_flags :: flag_store
  rt_next :: nat

definition rt_start :: runtime where
  "rt_start = \<lparr>rt_assemblies = [], rt_jobs = [], rt_done = [], rt_running = [],
     rt_flags = (\<lambda>_. False), rt_next = 0\<rparr>"

datatype phase = Serving | Stopping | Returned "err option"

section \<open>One event\<close>

text \<open>The outcome of an event: \<open>None\<close> goes on with the loop, \<open>Some e\<close> leaves it with \<open>e\<close>.\<close>

definition with_reply ::
    "runtime \<Rightarrow> (err option \<times> 'w) outcome option \<Rightarrow> (err option \<times> runtime \<times> 'w) outcome option" where
  "with_reply st r =
    (case r of
       None \<Rightarrow> None
     | Some Crash \<Rightarrow> Some Crash
     | Some (Ret (e, w)) \<Rightarrow> Some (Ret (e, st, w)))"

definition drop_assembly :: "u64 \<Rightarrow> runtime \<Rightarrow> runtime" where
  "drop_assembly correlation st = st\<lparr>rt_assemblies := AList.delete correlation (rt_assemblies st)\<rparr>"

definition cancel_job :: "u64 \<Rightarrow> runtime \<Rightarrow> runtime" where
  "cancel_job correlation st =
    (case map_of (rt_jobs st) correlation of
       None \<Rightarrow> st
     | Some work \<Rightarrow> st\<lparr>rt_flags := (rt_flags st)(work_cancelled work := True)\<rparr>)"

definition invalid_request :: "runtime \<Rightarrow> Frame \<Rightarrow> u32 \<Rightarrow> ModuleMessage \<Rightarrow> bool" where
  "invalid_request st f expectedStage message \<longleftrightarrow>
     expectedStage = 0 \<or> Operation message \<noteq> ModuleOpInvoke \<or> StageID message \<noteq> expectedStage \<or>
     map_of (rt_jobs st) (CorrelationID f) \<noteq> None \<or>
     (case map_of (rt_assemblies st) (CorrelationID f) of
        None \<Rightarrow> False
      | Some assembly \<Rightarrow>
          asm_eventKind assembly \<noteq> EventKind f \<or>
          StageID (asm_message assembly) \<noteq> StageID message \<or>
          DeadlineNS (asm_message assembly) \<noteq> DeadlineNS message \<or>
          TraceID (asm_message assembly) \<noteq> TraceID message)"

text \<open>A complete request starts a handler: a new flag, a new job, a new goroutine.\<close>

definition start_work :: "Frame \<Rightarrow> u32 \<Rightarrow> ModuleMessage \<Rightarrow> bytes \<Rightarrow> runtime \<Rightarrow> runtime" where
  "start_work f expectedStage message requestBody st =
    (let cell = rt_next st;
         work = \<lparr>work_eventKind = EventKind f, work_correlationID = CorrelationID f,
                 work_invocation = \<lparr>InvStageID = expectedStage, InvDeadlineNS = DeadlineNS message,
                   InvTraceID = TraceID message, InvCancelled = Some cell\<rparr>,
                 work_cancelled = cell\<rparr>
     in st\<lparr>rt_flags := (rt_flags st)(cell := False), rt_next := Suc cell,
           rt_jobs := AList.update (CorrelationID f) work (rt_jobs st),
           rt_running := rt_running st @ [(work, requestBody)]\<rparr>)"

definition dispatch ::
    "'w module_bus \<Rightarrow> 'w module_env \<Rightarrow> ModuleHandler option \<Rightarrow> u64 \<Rightarrow> Frame \<Rightarrow> u32 \<Rightarrow> ModuleMessage \<Rightarrow>
     bytes \<Rightarrow> runtime \<Rightarrow> 'w \<Rightarrow> (err option \<times> runtime \<times> 'w) outcome option" where
  "dispatch bus env handler now f expectedStage message requestBody st w =
    (let refuse = (\<lambda>status. with_reply st (replyModuleResult bus env (EventKind f) (CorrelationID f)
            expectedStage (TraceID message) status [] w))
     in if DeadlineExpired message now then refuse ModuleStatusDeadlineExceeded
        else if handler = None then refuse ModuleStatusCapabilityAbsent
        else if length (rt_jobs st) \<ge> moduleMaxInFlight then refuse ModuleStatusInternal
        else Some (Ret (None, start_work f expectedStage message requestBody st, w)))"

definition add_fragment ::
    "'w module_bus \<Rightarrow> 'w module_env \<Rightarrow> ModuleHandler option \<Rightarrow> u64 \<Rightarrow> Event \<Rightarrow> u32 \<Rightarrow> ModuleMessage \<Rightarrow>
     moduleAssembly \<Rightarrow> runtime \<Rightarrow> 'w \<Rightarrow> (err option \<times> runtime \<times> 'w) outcome option" where
  "add_fragment bus env handler now event expectedStage message assembly st w =
    (let f = EventFrame event;
         body = sub (Payload event) ModuleMessageHeaderLen (unat (BodyLen message))
     in if length (asm_body assembly) + length body > unat ModuleMessageMaxBody
        then with_reply (drop_assembly (CorrelationID f) st)
               (replyModuleResult bus env (EventKind f) (CorrelationID f) expectedStage
                  (TraceID message) ModuleStatusInternal [] w)
        else
          (let assembly = assembly\<lparr>asm_body := asm_body assembly @ body\<rparr>;
               st = st\<lparr>rt_assemblies := AList.update (CorrelationID f) assembly (rt_assemblies st)\<rparr>
           in if HdrFlags f AND FMore \<noteq> 0 then Some (Ret (None, st, w))
              else dispatch bus env handler now f expectedStage message (asm_body assembly)
                     (drop_assembly (CorrelationID f) st) w))"

definition request_event ::
    "'w module_bus \<Rightarrow> 'w module_env \<Rightarrow> ModuleHandler option \<Rightarrow> stage_map \<Rightarrow> u64 \<Rightarrow> Event \<Rightarrow> runtime \<Rightarrow>
     'w \<Rightarrow> (err option \<times> runtime \<times> 'w) outcome option" where
  "request_event bus env handler stages now event st w =
    (let f = EventFrame event;
         expectedStage = stage_of stages (EventKind f);
         reject = with_reply (drop_assembly (CorrelationID f) st)
                    (invalidModuleRequest bus env event expectedStage 0 w)
     in case DecodeModuleMessage (Payload event) of
          Inl _ \<Rightarrow> reject
        | Inr message \<Rightarrow>
            if invalid_request st f expectedStage message then reject
            else (case map_of (rt_assemblies st) (CorrelationID f) of
                Some assembly \<Rightarrow>
                  add_fragment bus env handler now event expectedStage message assembly st w
              | None \<Rightarrow>
                  if length (rt_assemblies st) \<ge> moduleMaxInFlight
                  then with_reply st (replyModuleResult bus env (EventKind f) (CorrelationID f)
                         expectedStage (TraceID message) ModuleStatusInternal [] w)
                  else (let assembly = \<lparr>asm_eventKind = EventKind f, asm_message = message, asm_body = []\<rparr>
                        in add_fragment bus env handler now event expectedStage message assembly
                             (st\<lparr>rt_assemblies := AList.update (CorrelationID f) assembly (rt_assemblies st)\<rparr>) w)))"

definition handle_event ::
    "'w module_bus \<Rightarrow> 'w module_env \<Rightarrow> ModuleHandler option \<Rightarrow> stage_map \<Rightarrow> u64 \<Rightarrow> Event \<Rightarrow> runtime \<Rightarrow>
     'w \<Rightarrow> (err option \<times> runtime \<times> 'w) outcome option" where
  "handle_event bus env handler stages now event st w =
    (let f = EventFrame event in
     if HdrFlags f AND FCancel \<noteq> 0
     then Some (Ret (None, drop_assembly (CorrelationID f) (cancel_job (CorrelationID f) st), w))
     else if HdrFlags f AND FRequest = 0 then Some (Ret (None, st, w))
     else request_event bus env handler stages now event st w)"

section \<open>The loop\<close>

definition finishModuleWork ::
    "'w module_bus \<Rightarrow> 'w module_env \<Rightarrow> moduleResult \<Rightarrow> runtime \<Rightarrow> 'w \<Rightarrow>
     (err option \<times> runtime \<times> 'w) outcome option" where
  "finishModuleWork bus env result st w =
    (let work = result_work result
     in with_reply (st\<lparr>rt_jobs := AList.delete (work_correlationID work) (rt_jobs st)\<rparr>)
          (replyModuleResult bus env (work_eventKind work) (work_correlationID work)
             (InvStageID (work_invocation work)) (InvTraceID (work_invocation work))
             (result_status result) (result_body result) w))"

definition cancel_all :: "runtime \<Rightarrow> runtime" where
  "cancel_all st =
     st\<lparr>rt_flags := fold (\<lambda>(_, work) flags. flags(work_cancelled work := True)) (rt_jobs st) (rt_flags st)\<rparr>"

text \<open>The loop's body behind the draining of the result channel.\<close>

definition serve_pass ::
    "'w module_bus \<Rightarrow> 'w module_env \<Rightarrow> ModuleHandler option \<Rightarrow> stage_map \<Rightarrow> runtime \<Rightarrow> 'w \<Rightarrow>
     (phase \<times> runtime \<times> 'w) outcome option" where
  "serve_pass bus env handler stages st w =
    (if env_ctx_done env w then Some (Ret (Stopping, cancel_all st, w))
     else case bus_EpochChanged bus w of
       Crash \<Rightarrow> Some Crash
     | Ret True \<Rightarrow> Some (Ret (Returned None, st, w))
     | Ret False \<Rightarrow>
         (let now = monotonicNowNS (env_clock env w)
          in case obind (heartbeat_now bus env w) (bus_Poll bus) of
               Crash \<Rightarrow> Some Crash
             | Ret (Inl e, w) \<Rightarrow>
                 Some (Ret (Returned (if errors_is e ErrEpoch then None else Some e), st, w))
             | Ret (Inr None, w) \<Rightarrow> Some (Ret (Serving, st, env_sleep env w))
             | Ret (Inr (Some event), w) \<Rightarrow>
                 (case handle_event bus env handler stages now event st w of
                    None \<Rightarrow> None
                  | Some Crash \<Rightarrow> Some Crash
                  | Some (Ret (None, st, w)) \<Rightarrow> Some (Ret (Serving, st, w))
                  | Some (Ret (Some e, st, w)) \<Rightarrow> Some (Ret (Returned (Some e), st, w)))))"

text \<open>
  The steps. A handler's goroutine finishes in one step: the handler has seen the flags and
  the time of some earlier moment, and the wrapper those of now; its result joins the channel.
  The loop drains the channel one result at a time and starts a pass on an empty one; while
  it is stopping it only receives. The host may do anything to the bus at any time.
\<close>

inductive rt_step ::
    "'w module_bus \<Rightarrow> 'w module_env \<Rightarrow> ModuleHandler option \<Rightarrow> stage_map \<Rightarrow>
     phase \<times> runtime \<times> 'w \<Rightarrow> phase \<times> runtime \<times> 'w \<Rightarrow> bool"
  for bus :: "'w module_bus" and env and handler and stages where
  finish:
    "rt_running st = pre @ (work, body) # post \<Longrightarrow> handler = Some h \<Longrightarrow>
     (\<And>a. flags a \<Longrightarrow> rt_flags st a) \<Longrightarrow>
     result = runHandler work h body flags now (rt_flags st) now' \<Longrightarrow> ph = Serving \<or> ph = Stopping \<Longrightarrow>
     rt_step bus env handler stages (ph, st, w)
       (ph, st\<lparr>rt_running := pre @ post, rt_done := rt_done st @ [result]\<rparr>, w)"
| drain:
    "rt_done st = result # rest \<Longrightarrow>
     finishModuleWork bus env result (st\<lparr>rt_done := rest\<rparr>) w = Some (Ret (e, st', w')) \<Longrightarrow>
     rt_step bus env handler stages (Serving, st, w)
       (case e of None \<Rightarrow> Serving | Some _ \<Rightarrow> Returned e, st', w')"
| pass:
    "rt_done st = [] \<Longrightarrow> serve_pass bus env handler stages st w = Some (Ret (ph, st', w')) \<Longrightarrow>
     rt_step bus env handler stages (Serving, st, w) (ph, st', w')"
| stop_receive:
    "rt_jobs st \<noteq> [] \<Longrightarrow> rt_done st = result # rest \<Longrightarrow>
     rt_step bus env handler stages (Stopping, st, w)
       (Stopping, st\<lparr>rt_done := rest, rt_jobs := AList.delete (work_correlationID (result_work result)) (rt_jobs st)\<rparr>, w)"
| stop_end:
    "rt_jobs st = [] \<Longrightarrow> rt_step bus env handler stages (Stopping, st, w) (Returned None, st, w)"
| host:
    "rt_step bus env handler stages (ph, st, w) (ph, st, w')"

inductive_cases rt_stepE: "rt_step bus env handler stages s s'"

inductive rt_reach ::
    "'w module_bus \<Rightarrow> 'w module_env \<Rightarrow> ModuleHandler option \<Rightarrow> stage_map \<Rightarrow>
     phase \<times> runtime \<times> 'w \<Rightarrow> phase \<times> runtime \<times> 'w \<Rightarrow> bool"
  for bus :: "'w module_bus" and env and handler and stages where
  start: "rt_reach bus env handler stages s s"
| step: "rt_reach bus env handler stages s s' \<Longrightarrow> rt_step bus env handler stages s' s'' \<Longrightarrow>
    rt_reach bus env handler stages s s''"

section \<open>Association lists\<close>

lemma update_new: "k \<notin> fst ` set al \<Longrightarrow> AList.update k v al = al @ [(k, v)]"
  by (induction al) auto

lemma set_update_subset: "set (AList.update k v al) \<subseteq> insert (k, v) (set al)"
  by (induction al) auto

lemma length_update: "length (AList.update k v al) = (if k \<in> fst ` set al then length al else Suc (length al))"
proof -
  have "length (map fst (AList.update k v al)) = (if k \<in> fst ` set al then length al else Suc (length al))"
    by (subst AList.update_keys) auto
  then show ?thesis by simp
qed

lemma delete_filter: "AList.delete k al = filter (\<lambda>x. fst x \<noteq> k) al"
  by (induction al) auto

lemma mset_delete:
  "distinct (map fst al) \<Longrightarrow> (k, v) \<in> set al \<Longrightarrow>
   mset (map snd al) = add_mset v (mset (map snd (AList.delete k al)))"
proof (induction al)
  case (Cons x al)
  show ?case
  proof (cases "fst x = k")
    case True
    with Cons.prems have "x = (k, v)" and "\<forall>y \<in> set al. fst y \<noteq> k"
      by (auto simp: image_iff)
    then show ?thesis by (simp add: delete_filter filter_id_conv [THEN iffD2])
  qed (use Cons in \<open>auto simp: delete_filter\<close>)
qed simp

section \<open>Invariant\<close>

definition assembly_ok :: "stage_map \<Rightarrow> runtime \<Rightarrow> u64 \<times> moduleAssembly \<Rightarrow> bool" where
  "assembly_ok stages st ka \<longleftrightarrow>
     fst ka \<notin> fst ` set (rt_jobs st) \<and> length (asm_body (snd ka)) \<le> unat ModuleMessageMaxBody \<and>
     StageID (asm_message (snd ka)) = stage_of stages (asm_eventKind (snd ka)) \<and>
     stage_of stages (asm_eventKind (snd ka)) \<noteq> 0"

definition job_ok :: "stage_map \<Rightarrow> runtime \<Rightarrow> u64 \<times> moduleWork \<Rightarrow> bool" where
  "job_ok stages st kw \<longleftrightarrow>
     work_correlationID (snd kw) = fst kw \<and> work_cancelled (snd kw) < rt_next st \<and>
     InvCancelled (work_invocation (snd kw)) = Some (work_cancelled (snd kw)) \<and>
     InvStageID (work_invocation (snd kw)) = stage_of stages (work_eventKind (snd kw)) \<and>
     stage_of stages (work_eventKind (snd kw)) \<noteq> 0"

definition result_ok :: "moduleResult \<Rightarrow> bool" where
  "result_ok r \<longleftrightarrow> validModuleStatus (result_status r) \<and>
     length (result_body r) \<le> unat ModuleMessageMaxBody \<and>
     (result_status r \<noteq> ModuleStatusOK \<longrightarrow> result_body r = [])"

definition rt_inv :: "stage_map \<Rightarrow> runtime \<Rightarrow> bool" where
  "rt_inv stages st \<longleftrightarrow>
     distinct (map fst (rt_assemblies st)) \<and> length (rt_assemblies st) \<le> moduleMaxInFlight \<and>
     (\<forall>ka \<in> set (rt_assemblies st). assembly_ok stages st ka) \<and>
     distinct (map fst (rt_jobs st)) \<and> length (rt_jobs st) \<le> moduleMaxInFlight \<and>
     (\<forall>kw \<in> set (rt_jobs st). job_ok stages st kw) \<and>
     distinct (map (work_cancelled \<circ> snd) (rt_jobs st)) \<and>
     mset (map snd (rt_jobs st)) = mset (map fst (rt_running st)) + mset (map result_work (rt_done st)) \<and>
     (\<forall>r \<in> set (rt_done st). result_ok r) \<and>
     (\<forall>wb \<in> set (rt_running st). length (snd wb) \<le> unat ModuleMessageMaxBody)"

lemma rt_inv_start: "rt_inv stages rt_start"
  by (simp add: rt_inv_def rt_start_def)

lemma with_reply_Ret:
  "with_reply st r = Some (Ret (e, st', w')) \<longleftrightarrow> st' = st \<and> r = Some (Ret (e, w'))"
  by (auto simp: with_reply_def split: option.splits outcome.splits)

lemma drop_assembly_inv: "rt_inv stages st \<Longrightarrow> rt_inv stages (drop_assembly k st)"
  by (auto simp: rt_inv_def drop_assembly_def assembly_ok_def job_ok_def distinct_delete
      delete_filter distinct_map_filter intro: order_trans [OF length_filter_le])

lemma cancel_job_inv: "rt_inv stages st \<Longrightarrow> rt_inv stages (cancel_job k st)"
  by (auto simp: rt_inv_def cancel_job_def assembly_ok_def job_ok_def split: option.splits)

lemma cancel_all_inv: "rt_inv stages st \<Longrightarrow> rt_inv stages (cancel_all st)"
  by (simp add: rt_inv_def cancel_all_def assembly_ok_def job_ok_def)

text \<open>Putting an assembly into the table, under a key that no job has.\<close>

lemma put_assembly_inv:
  assumes "rt_inv stages st" and "assembly_ok stages st (k, a)"
    and "k \<in> fst ` set (rt_assemblies st) \<or> length (rt_assemblies st) < moduleMaxInFlight"
  shows "rt_inv stages (st\<lparr>rt_assemblies := AList.update k a (rt_assemblies st)\<rparr>)"
proof -
  have "\<forall>ka \<in> set (AList.update k a (rt_assemblies st)). assembly_ok stages st ka"
    using assms(1,2) set_update_subset [of k a "rt_assemblies st"] unfolding rt_inv_def by blast
  moreover have "assembly_ok stages (st\<lparr>rt_assemblies := m\<rparr>) = assembly_ok stages st"
    "job_ok stages (st\<lparr>rt_assemblies := m\<rparr>) = job_ok stages st" for m
    by (auto simp: assembly_ok_def job_ok_def)
  moreover have "length (AList.update k a (rt_assemblies st)) \<le> moduleMaxInFlight"
    using assms(1,3) by (auto simp: rt_inv_def length_update)
  ultimately show ?thesis
    using assms(1) by (simp add: rt_inv_def distinct_update)
qed

lemma start_work_inv:
  assumes inv: "rt_inv stages st" and stage: "expectedStage = stage_of stages (EventKind f)" "expectedStage \<noteq> 0"
    and new: "CorrelationID f \<notin> fst ` set (rt_jobs st)" "CorrelationID f \<notin> fst ` set (rt_assemblies st)"
    and room: "length (rt_jobs st) < moduleMaxInFlight" and len: "length body \<le> unat ModuleMessageMaxBody"
  shows "rt_inv stages (start_work f expectedStage message body st)"
proof -
  have "rt_next st \<notin> (work_cancelled \<circ> snd) ` set (rt_jobs st)"
    using inv by (auto simp: rt_inv_def job_ok_def)
  moreover have "fst ka \<noteq> CorrelationID f" if "ka \<in> set (rt_assemblies st)" for ka
    using new(2) that by (metis imageI)
  ultimately show ?thesis
    using assms
    by (auto simp: rt_inv_def start_work_def Let_def update_new assembly_ok_def job_ok_def less_Suc_eq)
qed

lemma dispatch_inv:
  assumes "rt_inv stages st" and "expectedStage = stage_of stages (EventKind f)" and "expectedStage \<noteq> 0"
    and "CorrelationID f \<notin> fst ` set (rt_jobs st)" and "CorrelationID f \<notin> fst ` set (rt_assemblies st)"
    and "length body \<le> unat ModuleMessageMaxBody"
    and "dispatch bus env handler now f expectedStage message body st w = Some (Ret (e, st', w'))"
  shows "rt_inv stages st'"
  using assms(7) start_work_inv [OF assms(1-5) _ assms(6)] assms(1)
  by (auto simp: dispatch_def Let_def with_reply_Ret split: if_splits)

lemma add_fragment_inv:
  assumes inv: "rt_inv stages st" and stage: "expectedStage = stage_of stages (EventKind (EventFrame event))"
      "expectedStage \<noteq> 0"
    and ok: "assembly_ok stages st (CorrelationID (EventFrame event), assembly)"
    and key: "CorrelationID (EventFrame event) \<in> fst ` set (rt_assemblies st)"
    and run: "add_fragment bus env handler now event expectedStage message assembly st w = Some (Ret (e, st', w'))"
  shows "rt_inv stages st'"
proof -
  define f body a' st1 where "f = EventFrame event"
    and "body = sub (Payload event) ModuleMessageHeaderLen (unat (BodyLen message))"
    and "a' = assembly\<lparr>asm_body := asm_body assembly @ body\<rparr>"
    and "st1 = st\<lparr>rt_assemblies := AList.update (CorrelationID f) a' (rt_assemblies st)\<rparr>"
  have run': "(if length (asm_body assembly) + length body > unat ModuleMessageMaxBody
        then with_reply (drop_assembly (CorrelationID f) st)
               (replyModuleResult bus env (EventKind f) (CorrelationID f) expectedStage
                  (TraceID message) ModuleStatusInternal [] w)
        else if HdrFlags f AND FMore \<noteq> 0 then Some (Ret (None, st1, w))
        else dispatch bus env handler now f expectedStage message (asm_body a')
               (drop_assembly (CorrelationID f) st1) w) = Some (Ret (e, st', w'))"
    using run by (simp only: add_fragment_def Let_def f_def body_def a'_def st1_def)
  show ?thesis
  proof (cases "length (asm_body assembly) + length body > unat ModuleMessageMaxBody")
    case True
    with run' drop_assembly_inv [OF inv] show ?thesis by (simp add: with_reply_Ret)
  next
    case False
    then have "assembly_ok stages st (CorrelationID f, a')"
      using ok by (simp add: assembly_ok_def a'_def f_def)
    then have inv1: "rt_inv stages st1"
      using put_assembly_inv [OF inv] key by (simp add: st1_def f_def)
    have "CorrelationID f \<notin> fst ` set (rt_jobs st)" using ok by (simp add: assembly_ok_def f_def)
    then have "CorrelationID f \<notin> fst ` set (rt_jobs (drop_assembly (CorrelationID f) st1))"
      "CorrelationID f \<notin> fst ` set (rt_assemblies (drop_assembly (CorrelationID f) st1))"
      by (auto simp: drop_assembly_def st1_def delete_filter)
    note disp = dispatch_inv [OF drop_assembly_inv [OF inv1] stage [folded f_def] this]
    have "length (asm_body a') \<le> unat ModuleMessageMaxBody" using False by (simp add: a'_def)
    from disp [OF this] run' False inv1 show ?thesis
      by (metis Pair_inject option.inject outcome.inject)
  qed
qed

lemma handle_event_inv:
  assumes inv: "rt_inv stages st"
    and run: "handle_event bus env handler stages now event st w = Some (Ret (e, st', w'))"
  shows "rt_inv stages st'"
proof -
  define f expectedStage where "f = EventFrame event" and "expectedStage = stage_of stages (EventKind f)"
  define r where "r = invalidModuleRequest bus env event expectedStage 0 w"
  consider "HdrFlags f AND FCancel \<noteq> 0" | "HdrFlags f AND FCancel = 0" "HdrFlags f AND FRequest = 0"
    | (req) "request_event bus env handler stages now event st w = Some (Ret (e, st', w'))"
    using run by (auto simp: handle_event_def Let_def f_def split: if_splits)
  then show ?thesis
  proof cases
    case req
    show ?thesis
    proof (cases "DecodeModuleMessage (Payload event)")
      case (Inl e)
      with req drop_assembly_inv [OF inv] show ?thesis
        by (simp add: request_event_def with_reply_Ret Let_def)
    next
      case (Inr message)
      show ?thesis
      proof (cases "invalid_request st f expectedStage message")
        case True
        with req Inr drop_assembly_inv [OF inv] show ?thesis
          by (simp add: request_event_def with_reply_Ret Let_def f_def expectedStage_def)
      next
        case valid: False
        then have stage: "expectedStage \<noteq> 0" "StageID message = expectedStage"
          and nojob: "CorrelationID f \<notin> fst ` set (rt_jobs st)"
          by (auto simp: invalid_request_def map_of_eq_None_iff)
        show ?thesis
        proof (cases "map_of (rt_assemblies st) (CorrelationID f)")
          case (Some assembly)
          then have mem: "(CorrelationID f, assembly) \<in> set (rt_assemblies st)" by (rule map_of_SomeD)
          with inv have "assembly_ok stages st (CorrelationID f, assembly)" by (simp add: rt_inv_def)
          moreover have "CorrelationID f \<in> fst ` set (rt_assemblies st)" using mem by force
          moreover have "add_fragment bus env handler now event expectedStage message assembly st w = Some (Ret (e, st', w'))"
            using req Inr valid Some by (simp add: request_event_def Let_def f_def expectedStage_def)
          ultimately show ?thesis
            using add_fragment_inv [OF inv] stage by (simp add: f_def expectedStage_def)
        next
          case None
          define a st1 where "a = \<lparr>asm_eventKind = EventKind f, asm_message = message, asm_body = []\<rparr>"
            and "st1 = st\<lparr>rt_assemblies := AList.update (CorrelationID f) a (rt_assemblies st)\<rparr>"
          show ?thesis
          proof (cases "length (rt_assemblies st) \<ge> moduleMaxInFlight")
            case True
            with req Inr valid None inv show ?thesis
              by (simp add: request_event_def Let_def f_def expectedStage_def with_reply_Ret)
          next
            case False
            have ok: "assembly_ok stages st (CorrelationID f, a)"
              using stage nojob by (simp add: assembly_ok_def a_def expectedStage_def)
            then have "rt_inv stages st1"
              using put_assembly_inv [OF inv] False by (simp add: st1_def)
            moreover have "assembly_ok stages st1 (CorrelationID f, a)"
              using ok by (simp add: assembly_ok_def st1_def)
            moreover have "CorrelationID f \<in> fst ` set (rt_assemblies st1)"
              by (simp add: st1_def dom_update [unfolded dom_map_of_conv_image_fst])
            moreover have "add_fragment bus env handler now event expectedStage message a st1 w = Some (Ret (e, st', w'))"
              using req Inr valid None False
              by (simp add: request_event_def Let_def f_def expectedStage_def a_def st1_def)
            ultimately show ?thesis
              using add_fragment_inv stage by (simp add: f_def expectedStage_def)
          qed
        qed
      qed
    qed
  qed (use run inv in \<open>auto simp: handle_event_def Let_def f_def drop_assembly_inv cancel_job_inv\<close>)
qed

lemma finish_inv:
  assumes inv: "rt_inv stages st" and "rt_running st = pre @ (work, body) # post"
  shows "rt_inv stages (st\<lparr>rt_running := pre @ post,
    rt_done := rt_done st @ [runHandler work h body flags now flags' now']\<rparr>)"
proof -
  define r where "r = runHandler work h body flags now flags' now'"
  have "result_work r = work" and "result_ok r"
    using check_result_valid [of "fst (h (work_invocation work) flags now body)"
        "snd (h (work_invocation work) flags now body)"]
    by (auto simp: r_def runHandler_def Let_def result_ok_def validModuleStatus_def split: prod.splits)
  then show ?thesis
    using assms unfolding r_def [symmetric] by (auto simp: rt_inv_def assembly_ok_def job_ok_def)
qed

lemma receive_inv:
  assumes inv: "rt_inv stages st" and d: "rt_done st = result # rest"
  shows "rt_inv stages (st\<lparr>rt_done := rest,
    rt_jobs := AList.delete (work_correlationID (result_work result)) (rt_jobs st)\<rparr>)"
    and "result_work result \<in> snd ` set (rt_jobs st)" and "result_ok result"
proof -
  let ?work = "result_work result"
  have "?work \<in># mset (map snd (rt_jobs st))"
    using inv d by (simp add: rt_inv_def)
  then show "?work \<in> snd ` set (rt_jobs st)" by simp
  then have job: "(work_correlationID ?work, ?work) \<in> set (rt_jobs st)"
    using inv by (force simp: rt_inv_def job_ok_def)
  show "result_ok result" using inv d by (simp add: rt_inv_def)
  have "distinct (map fst (rt_jobs st))" using inv by (simp add: rt_inv_def)
  note del = mset_delete [OF this job]
  show "rt_inv stages (st\<lparr>rt_done := rest, rt_jobs := AList.delete (work_correlationID ?work) (rt_jobs st)\<rparr>)"
    using inv d del
    by (auto simp: rt_inv_def assembly_ok_def job_ok_def delete_filter distinct_map_filter
        intro: order_trans [OF length_filter_le])
qed

lemma serve_pass_inv:
  assumes "rt_inv stages st" and "serve_pass bus env handler stages st w = Some (Ret (ph, st', w'))"
  shows "rt_inv stages st'"
  using assms handle_event_inv [OF assms(1)] cancel_all_inv
  by (auto simp: serve_pass_def Let_def split: if_splits outcome.splits bool.splits prod.splits
      sum.splits option.splits)

lemma rt_step_inv:
  assumes "rt_step bus env handler stages (ph, st, w) (ph', st', w')" and "rt_inv stages st"
  shows "rt_inv stages st'"
  using assms
proof (cases rule: rt_step.cases)
  case (finish pre work body post h flags result now now')
  then show ?thesis using finish_inv [OF assms(2)] by simp
next
  case (drain result rest e)
  have "st\<lparr>rt_done := rest, rt_jobs := x\<rparr> = st\<lparr>rt_done := rest\<rparr>\<lparr>rt_jobs := x\<rparr>" for x by simp
  with drain receive_inv(1) [OF assms(2)] show ?thesis
    by (auto simp: finishModuleWork_def Let_def with_reply_Ret)
qed (use assms serve_pass_inv receive_inv(1) in auto)

lemma rt_reach_inv:
  "rt_reach bus env handler stages s s' \<Longrightarrow> rt_inv stages (fst (snd s)) \<Longrightarrow> rt_inv stages (fst (snd s'))"
proof (induction rule: rt_reach.induct)
  case (step s s' s'')
  then show ?case using rt_step_inv by (cases s'; cases s'') fastforce
qed simp

end
