(* ===== verification/Module_Requests.thy ===== *)
theory Module_Requests
  imports Module_Runtime Governance
begin

text \<open>
  What the serving loop makes of a request that arrives in fragments: the handler that is
  started gets the concatenation of the fragments' bodies, and nothing is sent. And the one
  way it does not: when an assembly grows past the limit it is dropped and answered, and the
  fragments of the same request that follow are taken for a new request.
\<close>

section \<open>Reassembly\<close>

text \<open>
  The events of one request in fragments: the same kind, correlation and message header, each
  with its chunk behind the header, and the more flag on all but the last.
\<close>

definition request_fragment ::
    "u32 \<Rightarrow> u64 \<Rightarrow> ModuleMessage \<Rightarrow> bytes \<Rightarrow> bool \<Rightarrow> Event \<Rightarrow> bool" where
  "request_fragment kind correlation m c more_frags event \<longleftrightarrow>
     HdrFlags (EventFrame event) AND FCancel = 0 \<and> HdrFlags (EventFrame event) AND FRequest \<noteq> 0 \<and>
     (HdrFlags (EventFrame event) AND FMore \<noteq> 0 \<longleftrightarrow> more_frags) \<and>
     EventKind (EventFrame event) = kind \<and> CorrelationID (EventFrame event) = correlation \<and>
     Payload event = message_bytes (m\<lparr>BodyLen := of_nat (length c)\<rparr>) @ c"

fun request_fragments ::
    "u32 \<Rightarrow> u64 \<Rightarrow> ModuleMessage \<Rightarrow> bytes list \<Rightarrow> Event list \<Rightarrow> bool" where
  "request_fragments kind correlation m [] [] = True"
| "request_fragments kind correlation m (c # cs) (e # es) =
     (request_fragment kind correlation m c (cs \<noteq> []) e \<and> request_fragments kind correlation m cs es)"
| "request_fragments kind correlation m _ _ = False"

text \<open>Handling a list of events, one after another, at one moment in time.\<close>

fun handle_events ::
    "'w module_bus \<Rightarrow> 'w module_env \<Rightarrow> ModuleHandler option \<Rightarrow> stage_map \<Rightarrow> u64 \<Rightarrow> Event list \<Rightarrow> runtime \<Rightarrow>
     'w \<Rightarrow> (err option \<times> runtime \<times> 'w) outcome option" where
  "handle_events bus env handler stages now [] st w = Some (Ret (None, st, w))"
| "handle_events bus env handler stages now (e # es) st w =
    (case handle_event bus env handler stages now e st w of
       Some (Ret (None, st, w)) \<Rightarrow> handle_events bus env handler stages now es st w
     | r \<Rightarrow> r)"

definition new_work :: "u32 \<Rightarrow> u64 \<Rightarrow> u32 \<Rightarrow> ModuleMessage \<Rightarrow> nat \<Rightarrow> moduleWork" where
  "new_work kind correlation stage m cell =
    \<lparr>work_eventKind = kind, work_correlationID = correlation,
     work_invocation = \<lparr>InvStageID = stage, InvDeadlineNS = DeadlineNS m, InvTraceID = TraceID m,
       InvCancelled = Some cell\<rparr>, work_cancelled = cell\<rparr>"

definition with_work :: "u64 \<Rightarrow> moduleWork \<Rightarrow> bytes \<Rightarrow> runtime \<Rightarrow> runtime" where
  "with_work correlation work body st =
    st\<lparr>rt_flags := (rt_flags st)(rt_next st := False), rt_next := Suc (rt_next st),
       rt_jobs := rt_jobs st @ [(correlation, work)], rt_running := rt_running st @ [(work, body)]\<rparr>"

definition invoke_header :: "ModuleMessage \<Rightarrow> u32 \<Rightarrow> bool" where
  "invoke_header m stage \<longleftrightarrow> Operation m = ModuleOpInvoke \<and> Status m = ModuleStatusOK \<and>
     Flags m = 0 \<and> StageID m = stage \<and> stage \<noteq> 0"

lemma decode_fragment:
  assumes "invoke_header m stage" and "length c \<le> unat ModuleMessageMaxBody"
  defines "m' \<equiv> m\<lparr>BodyLen := of_nat (length c)\<rparr>"
  shows "DecodeModuleMessage (message_bytes m' @ c) = Inr m'" and "unat (BodyLen m') = length c"
proof -
  show len: "unat (BodyLen m') = length c"
    using assms(2) by (simp add: m'_def unat_of_nat)
  have "valid_message m'"
    using assms(1,2) by (simp add: valid_message_def m'_def invoke_header_def word_le_nat_alt unat_of_nat)
  then show "DecodeModuleMessage (message_bytes m' @ c) = Inr m'"
    by (simp add: Decode_message_bytes len)
qed

lemma snoc_assembly:
  assumes "k \<notin> fst ` set al"
  shows "AList.update k a al = al @ [(k, a)]" "AList.update k b (al @ [(k, a)]) = al @ [(k, b)]"
    "AList.delete k (al @ [(k, a)]) = al" "map_of (al @ [(k, a)]) k = Some a"
proof -
  show "AList.update k a al = al @ [(k, a)]" using assms by (rule update_new)
  show "AList.update k b (al @ [(k, a)]) = al @ [(k, b)]" using assms by (induction al) auto
  show "AList.delete k (al @ [(k, a)]) = al"
    using assms by (auto simp: delete_filter filter_id_conv)
  show "map_of (al @ [(k, a)]) k = Some a"
    using assms by (induction al) auto
qed

text \<open>One fragment that continues (or, with an empty assembly, begins) a request.\<close>

lemma fragment_step:
  fixes st :: runtime and acc :: bytes
  assumes m: "invoke_header m (stage_of stages kind)" and fr: "request_fragment kind correlation m c more_frags event"
    and new: "correlation \<notin> fst ` set (rt_jobs st)" "correlation \<notin> fst ` set (rt_assemblies st)"
    and size: "length acc + length c \<le> unat ModuleMessageMaxBody"
    and st1: "st1 = st\<lparr>rt_assemblies := rt_assemblies st @ [(correlation,
        \<lparr>asm_eventKind = kind, asm_message = m0, asm_body = acc\<rparr>)]\<rparr> \<and>
        StageID m0 = StageID m \<and> DeadlineNS m0 = DeadlineNS m \<and> TraceID m0 = TraceID m \<or>
      st1 = st \<and> acc = [] \<and> length (rt_assemblies st) < moduleMaxInFlight \<and> m0 = m\<lparr>BodyLen := of_nat (length c)\<rparr>"
    and go: "\<not> DeadlineExpired m now" "handler \<noteq> None" "length (rt_jobs st) < moduleMaxInFlight"
  shows "handle_event bus env handler stages now event st1 w =
    Some (Ret (None, if more_frags
      then st\<lparr>rt_assemblies := rt_assemblies st @ [(correlation,
        \<lparr>asm_eventKind = kind, asm_message = m0, asm_body = acc @ c\<rparr>)]\<rparr>
      else with_work correlation (new_work kind correlation (stage_of stages kind) m (rt_next st)) (acc @ c) st, w))"
proof -
  let ?m = "m\<lparr>BodyLen := of_nat (length c)\<rparr>" and ?f = "EventFrame event"
  have c: "length c \<le> unat ModuleMessageMaxBody" using size by linarith
  note dec = decode_fragment [OF m c]
  have f: "EventKind ?f = kind" "CorrelationID ?f = correlation" "HdrFlags ?f AND FCancel = 0"
    "HdrFlags ?f AND FRequest \<noteq> 0" "(HdrFlags ?f AND FMore \<noteq> 0) = more_frags"
    and payload: "Payload event = message_bytes ?m @ c"
    using fr by (simp_all add: request_fragment_def)
  have body: "sub (Payload event) ModuleMessageHeaderLen (unat (BodyLen ?m)) = c"
    unfolding dec(2) payload by (simp add: sub_def)
  then have body': "sub (Payload event) 40 (unat (of_nat (length c) :: u32)) = c" by simp
  let ?a = "\<lparr>asm_eventKind = kind, asm_message = m0, asm_body = acc\<rparr>"
  let ?st = "st\<lparr>rt_assemblies := rt_assemblies st @ [(correlation, ?a)]\<rparr>"
  have add: "add_fragment bus env handler now event (stage_of stages kind) ?m ?a ?st w =
    Some (Ret (None, if more_frags
      then st\<lparr>rt_assemblies := rt_assemblies st @ [(correlation, ?a\<lparr>asm_body := acc @ c\<rparr>)]\<rparr>
      else with_work correlation (new_work kind correlation (stage_of stages kind) m (rt_next st)) (acc @ c) st, w))"
    using size go f new
    by (cases more_frags)
      (auto simp: add_fragment_def body' Let_def drop_assembly_def snoc_assembly [OF new(2)] dispatch_def
        DeadlineExpired_def start_work_def update_new with_work_def new_work_def)
  have job: "map_of (rt_jobs st1) correlation = None"
    using new(1) st1 by (auto simp: map_of_eq_None_iff)
  have "request_event bus env handler stages now event st1 w =
      add_fragment bus env handler now event (stage_of stages kind) ?m ?a ?st w"
  proof (cases "st1 = ?st \<and> StageID m0 = StageID m \<and> DeadlineNS m0 = DeadlineNS m \<and> TraceID m0 = TraceID m")
    case True
    then have "\<not> invalid_request st1 ?f (stage_of stages kind) ?m"
      using m job snoc_assembly(4) [OF new(2)] by (auto simp: invalid_request_def invoke_header_def f)
    with True show ?thesis
      using snoc_assembly(4) [OF new(2)] by (simp add: request_event_def Let_def f payload dec(1))
  next
    case False
    then have s: "st1 = st" "acc = []" "length (rt_assemblies st) < moduleMaxInFlight" "m0 = ?m"
      using st1 by auto
    have none: "map_of (rt_assemblies st) correlation = None" using new(2) by (simp add: map_of_eq_None_iff)
    then have "\<not> invalid_request st1 ?f (stage_of stages kind) ?m"
      using m job by (auto simp: invalid_request_def invoke_header_def f s)
    with s none show ?thesis
      by (simp add: request_event_def Let_def f payload dec(1) update_new [OF new(2)])
  qed
  then show ?thesis
    using f add by (simp add: handle_event_def Let_def)
qed

lemma fragments_step:
  fixes st :: runtime
  assumes m: "invoke_header m (stage_of stages kind)"
    and new: "correlation \<notin> fst ` set (rt_jobs st)" "correlation \<notin> fst ` set (rt_assemblies st)"
    and go: "\<not> DeadlineExpired m now" "handler \<noteq> None" "length (rt_jobs st) < moduleMaxInFlight"
  shows "request_fragments kind correlation m cs es \<Longrightarrow> cs \<noteq> [] \<Longrightarrow>
    length acc + length (concat cs) \<le> unat ModuleMessageMaxBody \<Longrightarrow>
    st1 = st\<lparr>rt_assemblies := rt_assemblies st @ [(correlation,
        \<lparr>asm_eventKind = kind, asm_message = m0, asm_body = acc\<rparr>)]\<rparr> \<and>
        StageID m0 = StageID m \<and> DeadlineNS m0 = DeadlineNS m \<and> TraceID m0 = TraceID m \<or>
      st1 = st \<and> acc = [] \<and> length (rt_assemblies st) < moduleMaxInFlight \<Longrightarrow>
    handle_events bus env handler stages now es st1 w =
      Some (Ret (None, with_work correlation (new_work kind correlation (stage_of stages kind) m (rt_next st))
        (acc @ concat cs) st, w))"
proof (induction cs arbitrary: es acc st1 m0)
  case (Cons c cs)
  then obtain e es' where es: "es = e # es'" and fr: "request_fragment kind correlation m c (cs \<noteq> []) e"
    and rest: "request_fragments kind correlation m cs es'"
    by (cases es) auto
  define m1 where "m1 = (if st1 = st \<and> acc = [] then m\<lparr>BodyLen := of_nat (length c)\<rparr> else m0)"
  have size: "length acc + length c \<le> unat ModuleMessageMaxBody" using Cons.prems(3) by simp
  have m1: "StageID m1 = StageID m \<and> DeadlineNS m1 = DeadlineNS m \<and> TraceID m1 = TraceID m"
    and state: "st1 = st\<lparr>rt_assemblies := rt_assemblies st @ [(correlation,
        \<lparr>asm_eventKind = kind, asm_message = m1, asm_body = acc\<rparr>)]\<rparr> \<and>
        StageID m1 = StageID m \<and> DeadlineNS m1 = DeadlineNS m \<and> TraceID m1 = TraceID m \<or>
      st1 = st \<and> acc = [] \<and> length (rt_assemblies st) < moduleMaxInFlight \<and> m1 = m\<lparr>BodyLen := of_nat (length c)\<rparr>"
  proof -
    have "st\<lparr>rt_assemblies := rt_assemblies st @ [x]\<rparr> \<noteq> st" for x
      by (cases st) simp
    then show "StageID m1 = StageID m \<and> DeadlineNS m1 = DeadlineNS m \<and> TraceID m1 = TraceID m"
      and "st1 = st\<lparr>rt_assemblies := rt_assemblies st @ [(correlation,
        \<lparr>asm_eventKind = kind, asm_message = m1, asm_body = acc\<rparr>)]\<rparr> \<and>
        StageID m1 = StageID m \<and> DeadlineNS m1 = DeadlineNS m \<and> TraceID m1 = TraceID m \<or>
      st1 = st \<and> acc = [] \<and> length (rt_assemblies st) < moduleMaxInFlight \<and> m1 = m\<lparr>BodyLen := of_nat (length c)\<rparr>"
      using Cons.prems(4) by (auto simp: m1_def)
  qed
  note step = fragment_step [OF m fr new size state go, where bus = bus and env = env and w = w]
  show ?case
  proof (cases "cs = []")
    case True
    with rest have "es' = []" by (cases es') auto
    with True step show ?thesis by (simp add: es)
  next
    case False
    have "length (acc @ c) + length (concat cs) \<le> unat ModuleMessageMaxBody" using Cons.prems(3) by simp
    from Cons.IH [OF rest False this disjI1 [OF conjI [OF refl m1]]] False step
    show ?thesis by (simp add: es)
  qed
qed simp
text \<open>A rejected oversized fragment, and a complete one-fragment request.\<close>

lemma oversized_fragment:
  assumes m: "invoke_header m (stage_of stages kind)" and fr: "request_fragment kind correlation m c more_frags event"
    and job: "correlation \<notin> fst ` set (rt_jobs st)"
    and old: "map_of (rt_assemblies st) correlation = Some a"
    and same: "asm_eventKind a = kind" "StageID (asm_message a) = StageID m"
      "DeadlineNS (asm_message a) = DeadlineNS m" "TraceID (asm_message a) = TraceID m"
    and c: "length c \<le> unat ModuleMessageMaxBody"
    and large: "length (asm_body a) + length c > unat ModuleMessageMaxBody"
  shows "handle_event bus env handler stages now event st w =
    with_reply (drop_assembly correlation st)
      (replyModuleResult bus env kind correlation (stage_of stages kind) (TraceID m) ModuleStatusInternal [] w)"
proof -
  let ?m = "m\<lparr>BodyLen := of_nat (length c)\<rparr>" and ?f = "EventFrame event"
  note dec = decode_fragment [OF m c]
  have f: "EventKind ?f = kind" "CorrelationID ?f = correlation" "HdrFlags ?f AND FCancel = 0"
    "HdrFlags ?f AND FRequest \<noteq> 0" and payload: "Payload event = message_bytes ?m @ c"
    using fr by (simp_all add: request_fragment_def)
  have body: "sub (Payload event) 40 (unat (of_nat (length c) :: u32)) = c"
    using dec(2) payload by (simp add: sub_def)
  have "\<not> invalid_request st ?f (stage_of stages kind) ?m"
    using m job old same by (auto simp: invalid_request_def invoke_header_def f map_of_eq_None_iff)
  then have "request_event bus env handler stages now event st w =
      add_fragment bus env handler now event (stage_of stages kind) ?m a st w"
    using old by (simp add: request_event_def Let_def f payload dec(1))
  then show ?thesis
    using f large by (simp add: handle_event_def Let_def add_fragment_def body)
qed

section \<open>Properties\<close>

text \<open>
  C29. A fragmented request reaches its handler whole: when the events of one request arrive in
  order, of any number and with any chunk sizes, the loop sends nothing on the way and then
  starts exactly one handler, with the concatenation of the fragments' bodies and the stage,
  deadline, trace id and a fresh cancel flag; no partial assembly is left behind.
\<close>

theorem request_reassembled:
  assumes "invoke_header m (stage_of stages kind)" and "request_fragments kind correlation m cs es" and "cs \<noteq> []"
    and "length (concat cs) \<le> unat ModuleMessageMaxBody" and "\<not> DeadlineExpired m now" and "handler \<noteq> None"
    and "correlation \<notin> fst ` set (rt_jobs st)" and "correlation \<notin> fst ` set (rt_assemblies st)"
    and "length (rt_assemblies st) < moduleMaxInFlight" and "length (rt_jobs st) < moduleMaxInFlight"
  shows "\<exists>st'. handle_events bus env handler stages now es st w = Some (Ret (None, st', w)) \<and>
    (let work = new_work kind correlation (stage_of stages kind) m (rt_next st) in
      rt_running st' = rt_running st @ [(work, concat cs)] \<and>
      rt_jobs st' = rt_jobs st @ [(correlation, work)] \<and>
      rt_assemblies st' = rt_assemblies st \<and> rt_done st' = rt_done st \<and>
      \<not> rt_flags st' (work_cancelled work))"
proof -
  have "handle_events bus env handler stages now es st w =
      Some (Ret (None, with_work correlation (new_work kind correlation (stage_of stages kind) m (rt_next st))
        ([] @ concat cs) st, w))"
    by (rule fragments_step) (use assms in simp_all)
  then show ?thesis by (simp add: with_work_def new_work_def)
qed

text \<open>The sample request: two fragments for stage 3 under kind 8961.\<close>

definition sample_invoke :: ModuleMessage where
  "sample_invoke = \<lparr>Operation = ModuleOpInvoke, Status = ModuleStatusOK, StageID = 3, Flags = 0,
     BodyLen = 0, DeadlineNS = 0, TraceID = 9\<rparr>"

definition sample_request :: "u64 \<Rightarrow> bytes \<Rightarrow> bool \<Rightarrow> Event" where
  "sample_request correlation c more_frags =
    \<lparr>EventFrame = sample_frame\<lparr>HdrFlags := FRequest OR FInline OR (if more_frags then FMore else 0),
       CorrelationID := correlation, EventKind := 8961\<rparr>,
     Payload = message_bytes (sample_invoke\<lparr>BodyLen := of_nat (length c)\<rparr>) @ c\<rparr>"

lemma sample_request: "request_fragment 8961 correlation sample_invoke c more_frags (sample_request correlation c more_frags)"
  by (cases more_frags) (simp_all add: request_fragment_def sample_request_def)

lemma sample_invoke: "invoke_header sample_invoke (stage_of [(8961, 3)] 8961)"
  "\<not> DeadlineExpired sample_invoke now"
  by (simp_all add: invoke_header_def sample_invoke_def stage_of_def DeadlineExpired_def)

theorem request_reassembled_witness:
  "\<exists>st'. handle_events client_bus idle_env (Some Handle) [(8961, 3)] 0
      [sample_request 7 [1, 2] True, sample_request 7 [3] False] rt_start sample_client =
        Some (Ret (None, st', sample_client)) \<and> map snd (rt_running st') = [[1, 2, 3]]"
proof -
  have "request_fragments 8961 7 sample_invoke [[1, 2], [3]] [sample_request 7 [1, 2] True, sample_request 7 [3] False]"
    by (simp add: sample_request)
  from request_reassembled [OF sample_invoke(1) this, of 0 "Some Handle" rt_start client_bus idle_env sample_client]
    sample_invoke(2) [of 0]
  show ?thesis by (auto simp: rt_start_def Let_def)
qed

text \<open>
  C33. An oversized request is not refused as a whole: when a fragment takes its assembly past
  the limit, the loop answers Internal and drops the assembly, but the last fragment of the
  same request then starts a handler all the same, with only its own bytes as the body.
\<close>

theorem oversized_tail_dispatched:
  assumes "invoke_header m (stage_of stages kind)" and "request_fragment kind correlation m c True event"
    and "request_fragment kind correlation m tail False event'"
    and "map_of (rt_assemblies st) correlation = Some a" and "rt_inv stages st"
    and "asm_eventKind a = kind" and "StageID (asm_message a) = StageID m"
    and "DeadlineNS (asm_message a) = DeadlineNS m" and "TraceID (asm_message a) = TraceID m"
    and "length c \<le> unat ModuleMessageMaxBody" and "length tail \<le> unat ModuleMessageMaxBody"
    and "length (asm_body a) + length c > unat ModuleMessageMaxBody"
    and "\<not> DeadlineExpired m now" and "handler \<noteq> None" and "length (rt_jobs st) < moduleMaxInFlight"
    and "replyModuleResult bus env kind correlation (stage_of stages kind) (TraceID m) ModuleStatusInternal [] w =
      Some (Ret (None, w'))"
  shows "\<exists>st'. handle_events bus env handler stages now [event, event'] st w = Some (Ret (None, st', w')) \<and>
    rt_running st' = rt_running st @
      [(new_work kind correlation (stage_of stages kind) m (rt_next st), tail)]"
proof -
  have mem: "(correlation, a) \<in> set (rt_assemblies st)" using assms(4) by (rule map_of_SomeD)
  then have job: "correlation \<notin> fst ` set (rt_jobs st)"
    using assms(5) by (force simp: rt_inv_def assembly_ok_def)
  let ?st = "drop_assembly correlation st"
  have "length (rt_assemblies ?st) < length (rt_assemblies st)"
    using mem by (auto simp: drop_assembly_def delete_filter intro!: length_filter_less)
  then have room: "length (rt_assemblies ?st) < moduleMaxInFlight"
    using assms(5) by (simp add: rt_inv_def)
  have "handle_event bus env handler stages now event st w = Some (Ret (None, ?st, w'))"
    using oversized_fragment [OF assms(1,2) job assms(4,6-10,12), where bus = bus and env = env and w = w] assms(16)
    by (simp add: with_reply_def)
  moreover have "\<exists>st'. handle_events bus env handler stages now [event'] ?st w' = Some (Ret (None, st', w')) \<and>
    rt_running st' = rt_running ?st @ [(new_work kind correlation (stage_of stages kind) m (rt_next ?st), concat [tail])]"
  proof -
    have "handle_events bus env handler stages now [event'] ?st w' =
      Some (Ret (None, with_work correlation (new_work kind correlation (stage_of stages kind) m (rt_next ?st))
        ([] @ concat [tail]) ?st, w'))"
      by (rule fragments_step) (use assms job room in \<open>auto simp: drop_assembly_def delete_filter\<close>)
    then show ?thesis by (simp add: with_work_def)
  qed
  ultimately show ?thesis by (simp add: drop_assembly_def)
qed

theorem oversized_tail_dispatched_witness:
  "\<exists>a st st' w'. length (asm_body a) = unat ModuleMessageMaxBody \<and>
    rt_assemblies st = [(7, a)] \<and>
    handle_events client_bus idle_env (Some Handle) [(8961, 3)] 0
      [sample_request 7 [1, 2] True, sample_request 7 [3] False] st sample_client = Some (Ret (None, st', w')) \<and>
    map snd (rt_running st') = [[3]]"
proof -
  obtain big :: bytes where big: "length big = 16777216"
    using Ex_list_of_length by blast
  let ?a = "\<lparr>asm_eventKind = 8961, asm_message = sample_invoke, asm_body = big\<rparr>"
  define st where "st = rt_start\<lparr>rt_assemblies := [(7, ?a)]\<rparr>"
  have inv: "rt_inv [(8961, 3)] st"
    by (simp add: rt_inv_def st_def rt_start_def assembly_ok_def sample_invoke_def stage_of_def big)
  obtain w' where reply: "replyModuleResult client_bus idle_env 8961 7 (stage_of [(8961, 3)] 8961)
      (TraceID sample_invoke) ModuleStatusInternal [] sample_client = Some (Ret (None, w'))"
    using sample_client_replies [of 3 5 7 idle_env 8961 9] by (auto simp: stage_of_def sample_invoke_def)
  have "map_of (rt_assemblies st) 7 = Some ?a" by (simp add: st_def)
  from oversized_tail_dispatched [OF sample_invoke(1) sample_request sample_request this inv _ _ _ _ _ _ _
      sample_invoke(2) _ _ reply, of "[1, 2]" "[3]" "Some Handle" 0]
  obtain st' where "handle_events client_bus idle_env (Some Handle) [(8961, 3)] 0
      [sample_request 7 [1, 2] True, sample_request 7 [3] False] st sample_client = Some (Ret (None, st', w'))"
    "map snd (rt_running st') = [[3]]"
    using big by (auto simp: st_def rt_start_def)
  then show ?thesis
    using big by (intro exI [of _ ?a] exI [of _ st] exI [of _ st'] exI [of _ w']) (simp add: st_def rt_start_def)
qed

end
