(* ===== verification/Module_Jobs.thy ===== *)
theory Module_Jobs
  imports Module_Requests
begin

text \<open>
  The serving loop under every interleaving with its handlers and the host: the bounds of its
  tables, the fate of a cancelled job, and the end of the loop.
\<close>

section \<open>What a step changes\<close>

text \<open>Every outcome of an event, up to the assembly table.\<close>

inductive event_shape :: "ModuleHandler option \<Rightarrow> runtime \<Rightarrow> runtime \<Rightarrow> bool"
  for handler and st where
  table: "event_shape handler st (st\<lparr>rt_assemblies := asm\<rparr>)"
| cancel: "event_shape handler st ((cancel_job k st)\<lparr>rt_assemblies := asm\<rparr>)"
| started: "handler \<noteq> None \<Longrightarrow> event_shape handler st (start_work f stage m body (st\<lparr>rt_assemblies := asm\<rparr>))"

lemma event_shape_self: "event_shape handler st st"
  using event_shape.table [of handler st "rt_assemblies st"] by simp

lemma handle_event_shape:
  assumes "handle_event bus env handler stages now event st w = Some (Ret (e, st', w'))"
  shows "event_shape handler st st'"
proof -
  have disp: "event_shape handler st st'"
    if "dispatch bus env handler now f stage m body (st\<lparr>rt_assemblies := asm\<rparr>) w = Some (Ret (e, st', w'))"
    for f stage m body asm
    using that event_shape.started [of handler st f stage m body asm] event_shape.table
    by (auto simp: dispatch_def Let_def with_reply_Ret split: if_splits)
  have add: "event_shape handler st st'"
    if "add_fragment bus env handler now event stage m a (st\<lparr>rt_assemblies := asm\<rparr>) w = Some (Ret (e, st', w'))"
    for stage m a asm
    using that disp event_shape.table
    by (auto simp: add_fragment_def Let_def with_reply_Ret drop_assembly_def split: if_splits)
  have add0: "event_shape handler st st'"
    if "add_fragment bus env handler now event stage m a st w = Some (Ret (e, st', w'))" for stage m a
    using that add [of stage m a "rt_assemblies st"] by simp
  from assms show ?thesis
    using add add0 event_shape_self event_shape.table event_shape.cancel
    by (auto simp: handle_event_def request_event_def Let_def with_reply_Ret drop_assembly_def
        split: if_splits sum.splits option.splits)
qed

lemma event_shape_flags:
  "event_shape handler st st' \<Longrightarrow> rt_flags st a \<Longrightarrow> a < rt_next st \<Longrightarrow> rt_flags st' a \<and> a < rt_next st'"
  by (cases rule: event_shape.cases) (auto simp: cancel_job_def start_work_def Let_def split: option.splits)

lemma event_shape_done: "event_shape handler st st' \<Longrightarrow> rt_done st' = rt_done st"
  by (cases rule: event_shape.cases) (auto simp: cancel_job_def start_work_def Let_def split: option.splits)

lemma fold_cancel_mono: "fl a \<Longrightarrow> fold (\<lambda>(_, work) fl. fl(work_cancelled work := True)) jobs fl a"
proof (induction jobs arbitrary: fl)
  case (Cons job jobs)
  then show ?case by (cases job) simp
qed simp

lemma serve_pass_shape:
  assumes "serve_pass bus env handler stages st w = Some (Ret (ph, st', w'))"
  shows "(ph = Stopping \<and> st' = cancel_all st) \<or> (ph \<noteq> Stopping \<and> event_shape handler st st')"
  using assms event_shape_self
  by (auto simp: serve_pass_def Let_def dest!: handle_event_shape split: if_splits outcome.splits bool.splits prod.splits
      sum.splits option.splits)

lemma step_flag:
  assumes "rt_step bus env handler stages (ph, st, w) (ph', st', w')" and "rt_flags st a" and "a < rt_next st"
  shows "rt_flags st' a \<and> a < rt_next st'"
  using assms(1)
proof (cases rule: rt_step.cases)
  case pass
  from serve_pass_shape [OF pass(3)] event_shape_flags [OF _ assms(2,3)] assms(2,3) show ?thesis
    by (auto simp: cancel_all_def fold_cancel_mono)
next
  case drain
  then show ?thesis using assms(2,3) by (auto simp: finishModuleWork_def Let_def with_reply_Ret)
qed (use assms(2,3) in auto)

section \<open>Cancellation\<close>

definition cancelled_results :: "nat \<Rightarrow> runtime \<Rightarrow> bool" where
  "cancelled_results cell st \<longleftrightarrow> rt_flags st cell \<and> cell < rt_next st \<and>
     (\<forall>r \<in> set (rt_done st). work_cancelled (result_work r) = cell \<longrightarrow>
        result_status r = ModuleStatusCancelled \<and> result_body r = [])"

lemma cancelled_results_step:
  assumes step: "rt_step bus env handler stages (ph, st, w) (ph', st', w')" and c: "cancelled_results cell st"
  shows "cancelled_results cell st'"
proof -
  have flag: "rt_flags st' cell \<and> cell < rt_next st'"
    using step_flag [OF step] c by (simp add: cancelled_results_def)
  from step have "\<forall>r \<in> set (rt_done st'). work_cancelled (result_work r) = cell \<longrightarrow>
        result_status r = ModuleStatusCancelled \<and> result_body r = []"
  proof (cases rule: rt_step.cases)
    case finish
    then show ?thesis
      using c by (auto simp: cancelled_results_def runHandler_def Let_def split: prod.splits)
  next
    case drain
    then show ?thesis using c by (auto simp: cancelled_results_def finishModuleWork_def Let_def with_reply_Ret)
  next
    case pass
    from serve_pass_shape [OF pass(3)] have "rt_done st' = rt_done st"
      by (auto simp: cancel_all_def dest: event_shape_done)
    then show ?thesis using c by (simp add: cancelled_results_def)
  qed (use c in \<open>auto simp: cancelled_results_def\<close>)
  with flag show ?thesis by (simp add: cancelled_results_def)
qed

lemma cancelled_results_reach:
  "rt_reach bus env handler stages s s' \<Longrightarrow> cancelled_results cell (fst (snd s)) \<Longrightarrow>
   cancelled_results cell (fst (snd s'))"
proof (induction rule: rt_reach.induct)
  case (step s s' s'')
  then show ?case using cancelled_results_step by (cases s'; cases s'') fastforce
qed simp

text \<open>A running job is not among the finished ones: their cancel flags are distinct.\<close>

lemma running_not_done:
  assumes inv: "rt_inv stages st" and "(work, body) \<in> set (rt_running st)" and "r \<in> set (rt_done st)"
  shows "work_cancelled (result_work r) \<noteq> work_cancelled work"
proof -
  have "mset (map work_cancelled (map snd (rt_jobs st))) =
      mset (map work_cancelled (map fst (rt_running st) @ map result_work (rt_done st)))"
    using inv by (simp add: rt_inv_def flip: mset_map) (metis image_mset_union mset_map multiset.map_comp)
  moreover have "distinct (map work_cancelled (map snd (rt_jobs st)))"
    using inv by (simp add: rt_inv_def)
  ultimately have "distinct (map work_cancelled (map fst (rt_running st) @ map result_work (rt_done st)))"
    using mset_eq_imp_distinct_iff by metis
  then show ?thesis
    using assms(2,3) by (force simp: image_iff)
qed

lemma running_cell: "rt_inv stages st \<Longrightarrow> (work, body) \<in> set (rt_running st) \<Longrightarrow> work_cancelled work < rt_next st"
proof -
  assume inv: "rt_inv stages st" and run: "(work, body) \<in> set (rt_running st)"
  then have "work \<in># mset (map snd (rt_jobs st))"
    by (simp add: rt_inv_def) (metis fst_conv image_eqI)
  then show ?thesis using inv by (auto simp: rt_inv_def job_ok_def)
qed

section \<open>Shutdown\<close>

text \<open>What is left to happen once the loop is stopping.\<close>

definition shutdown_left :: "runtime \<Rightarrow> nat" where
  "shutdown_left st = 2 * length (rt_running st) + length (rt_done st)"

lemma rt_reach_trans:
  "rt_reach bus env handler stages s' s'' \<Longrightarrow> rt_reach bus env handler stages s s' \<Longrightarrow>
   rt_reach bus env handler stages s s''"
  by (induction rule: rt_reach.induct) (auto intro: rt_reach.step)

lemma stopping_step:
  assumes "rt_step bus env handler stages (Stopping, st, w) (ph', st', w')"
  shows "(ph' = Returned None \<and> st' = st \<and> rt_jobs st = []) \<or>
    (ph' = Stopping \<and> (st' = st \<or> shutdown_left st' < shutdown_left st))"
  using assms by (cases rule: rt_step.cases) (auto simp: shutdown_left_def)

lemma stopping_progress:
  assumes inv: "rt_inv stages st" and jobs: "rt_jobs st \<noteq> []"
  shows "\<exists>st'. rt_step bus env (Some h) stages (Stopping, st, w) (Stopping, st', w) \<and>
    shutdown_left st' < shutdown_left st \<and> rt_inv stages st'"
proof (cases "rt_done st")
  case (Cons result rest)
  let ?st = "st\<lparr>rt_done := rest, rt_jobs := AList.delete (work_correlationID (result_work result)) (rt_jobs st)\<rparr>"
  have "rt_step bus env (Some h) stages (Stopping, st, w) (Stopping, ?st, w)"
    by (rule rt_step.stop_receive [where result = result]) (use jobs Cons in simp_all)
  with receive_inv(1) [OF inv Cons] Cons show ?thesis
    by (intro exI [of _ ?st]) (simp add: shutdown_left_def)
next
  case Nil
  then have "mset (map snd (rt_jobs st)) = mset (map fst (rt_running st))"
    using inv by (simp add: rt_inv_def)
  then have "rt_running st \<noteq> []" using jobs by auto
  then obtain work body post where run: "rt_running st = [] @ (work, body) # post"
    by (cases "rt_running st") auto
  let ?r = "runHandler work h body (rt_flags st) 0 (rt_flags st) 0"
  let ?st = "st\<lparr>rt_running := [] @ post, rt_done := rt_done st @ [?r]\<rparr>"
  have "rt_step bus env (Some h) stages (Stopping, st, w) (Stopping, ?st, w)"
    by (rule rt_step.finish [OF run refl _ refl]) simp_all
  with finish_inv [OF inv run] run show ?thesis
    by (intro exI [of _ ?st]) (simp add: shutdown_left_def)
qed

lemma stopping_reaches_end:
  "rt_inv stages st \<Longrightarrow>
   \<exists>st'. rt_reach bus env (Some h) stages (Stopping, st, w) (Returned None, st', w) \<and> rt_jobs st' = []"
proof (induction "shutdown_left st" arbitrary: st rule: less_induct)
  case less
  show ?case
  proof (cases "rt_jobs st = []")
    case True
    then show ?thesis by (blast intro: rt_reach.intros rt_step.stop_end)
  next
    case False
    from stopping_progress [OF less.prems False, of bus env h w] obtain st1 where
      st1: "rt_step bus env (Some h) stages (Stopping, st, w) (Stopping, st1, w)"
      "shutdown_left st1 < shutdown_left st" "rt_inv stages st1" by blast
    from less.hyps [OF st1(2,3)] obtain st2 where
      "rt_reach bus env (Some h) stages (Stopping, st1, w) (Returned None, st2, w)" "rt_jobs st2 = []"
      by blast
    then show ?thesis
      using rt_reach_trans rt_reach.step [OF rt_reach.start st1(1)] by blast
  qed
qed

section \<open>A sample run\<close>

text \<open>A request without a body, delivered into the sample client's inbound ring.\<close>

definition sample_slot :: bytes where
  "sample_slot = frame_bytes (EventFrame (sample_request 7 [] False)) @ Payload (sample_request 7 [] False)
     @ replicate 24 0"

lemma sample_run:
  "\<exists>st c. rt_reach client_bus idle_env (Some Handle) [(8961, 3)] (Serving, rt_start, sample_client) (Serving, st, c) \<and>
     rt_running st = [(new_work 8961 7 3 sample_invoke 0, [])] \<and> rt_jobs st = [(7, new_work 8961 7 3 sample_invoke 0)]"
proof -
  let ?ev = "sample_request 7 [] False"
  have len: "length sample_slot = 128" by (simp add: sample_slot_def sample_request_def)
  then obtain c where d: "deliver sample_slot sample_client = Some c" using deliver_sample by blast
  have "length sample_slot = unat (c_slotSize sample_client)" by (simp add: len sample_client_def)
  note ds = deliver_Some [OF sample_client_inv this d]
  have valid: "Validate (EventFrame ?ev) = OK"
    by (simp add: Validate_def sample_request_def sample_frame_def exactlyOne_def Let_def)
  then have dec: "Decode sample_slot g = (OK, EventFrame ?ev)" for g
    by (simp add: sample_slot_def Decode_frame_bytes)
  have "\<not> payload_wraps (c_slotSize c) (EventFrame ?ev)"
    by (simp add: payload_wraps_def sample_request_def sample_frame_def)
  moreover have "slot_payload sample_slot (EventFrame ?ev) = Payload ?ev"
    by (simp add: slot_payload_def sample_slot_def sub_def) (simp add: sample_request_def sample_frame_def)
  ultimately obtain c' where poll: "Poll c = Ret (Inr (Some ?ev), c')"
    using Poll_slot [OF ds(1), of sample_slot "[]"] ds dec
    by (auto simp: sample_client_fields slot_safe_def slot_event_def)
  have "EpochChanged c = Ret False"
    using client_access(1) [OF ds(1)] ds(4) sample_client_fields(3) by simp
  moreover from request_reassembled [OF sample_invoke(1), of 7 "[[]]" "[?ev]" 0 "Some Handle" rt_start client_bus idle_env c']
    sample_invoke(2) [of 0] sample_request [of 7 "[]" False]
  obtain st where "handle_event client_bus idle_env (Some Handle) [(8961, 3)] 0 ?ev rt_start c' = Some (Ret (None, st, c'))"
    and st: "rt_running st = [(new_work 8961 7 3 sample_invoke 0, [])]" "rt_jobs st = [(7, new_work 8961 7 3 sample_invoke 0)]"
    by (auto simp: rt_start_def Let_def stage_of_def split: option.splits outcome.splits)
  ultimately have pass: "serve_pass client_bus idle_env (Some Handle) [(8961, 3)] rt_start c = Some (Ret (Serving, st, c'))"
    using poll by (simp add: serve_pass_def idle_env_def client_bus_def heartbeat_now_def monotonicNowNS_def)
  have "rt_step client_bus idle_env (Some Handle) [(8961, 3)] (Serving, rt_start, sample_client) (Serving, rt_start, c)"
    by (rule rt_step.host)
  moreover have "rt_step client_bus idle_env (Some Handle) [(8961, 3)] (Serving, rt_start, c) (Serving, st, c')"
    by (rule rt_step.pass [OF _ pass]) (simp add: rt_start_def)
  ultimately show ?thesis
    using st rt_reach.step [OF rt_reach.step [OF rt_reach.start]] by blast
qed

section \<open>Properties\<close>

text \<open>
  C30. The serving loop stays within its bounds under every interleaving with handlers and host:
  at most 16 assemblies and 16 jobs; no assembly and no request body longer than a message may
  be; the running handlers and the queued results are exactly the jobs, so the result channel
  (of capacity 16) never blocks a finishing handler; and no correlation id is both in assembly
  and in work.
\<close>

theorem runtime_bounded:
  assumes "rt_reach bus env handler stages (Serving, rt_start, w) (ph, st, w')"
  shows "length (rt_assemblies st) \<le> moduleMaxInFlight \<and> length (rt_jobs st) \<le> moduleMaxInFlight \<and>
    list_all (\<lambda>(_, a). length (asm_body a) \<le> unat ModuleMessageMaxBody) (rt_assemblies st) \<and>
    list_all (\<lambda>(_, body). length body \<le> unat ModuleMessageMaxBody) (rt_running st) \<and>
    length (rt_running st) + length (rt_done st) = length (rt_jobs st) \<and>
    distinct (map fst (rt_assemblies st) @ map fst (rt_jobs st))"
proof -
  have inv: "rt_inv stages st"
    using rt_reach_inv [OF assms] rt_inv_start by simp
  then have "mset (map snd (rt_jobs st)) = mset (map fst (rt_running st)) + mset (map result_work (rt_done st))"
    by (simp add: rt_inv_def)
  then have "length (rt_running st) + length (rt_done st) = length (rt_jobs st)"
    by (metis length_map size_mset size_union)
  with inv show ?thesis
    by (auto simp: rt_inv_def assembly_ok_def list_all_iff)
qed

theorem runtime_bounded_witness:
  "\<exists>st c. rt_reach client_bus idle_env (Some Handle) [(8961, 3)] (Serving, rt_start, sample_client) (Serving, st, c) \<and>
     length (rt_running st) = 1 \<and> length (rt_running st) + length (rt_done st) = length (rt_jobs st)"
proof -
  obtain st c where run: "rt_reach client_bus idle_env (Some Handle) [(8961, 3)] (Serving, rt_start, sample_client) (Serving, st, c)"
    "rt_running st = [(new_work 8961 7 3 sample_invoke 0, [])]" using sample_run by blast
  from runtime_bounded [OF run(1)] run show ?thesis by (intro exI [of _ st] exI [of _ c]) simp
qed



text \<open>
  C32. Shutdown completes: once the loop is stopping, every step that is not a move of the host
  brings the handlers and results still to come down or leaves the loop with success and no
  job left, no send or receive can block for good, and as long as handlers return the loop
  does reach that end.
\<close>

theorem shutdown_completes:
  assumes "rt_inv stages st"
  shows "(\<exists>st'. rt_reach bus env (Some h) stages (Stopping, st, w) (Returned None, st', w) \<and> rt_jobs st' = []) \<and>
    (rt_step bus env (Some h) stages (Stopping, st, w) (ph', st', w') \<longrightarrow>
      (if ph' = Stopping then st' = st \<or> shutdown_left st' < shutdown_left st
       else ph' = Returned None \<and> rt_jobs st' = []))"
  using stopping_reaches_end [OF assms, of bus env h w] stopping_step [of bus env "Some h" stages st w ph' st' w']
  by auto

theorem shutdown_completes_witness:
  "\<exists>st c st'. rt_reach client_bus idle_env (Some Handle) [(8961, 3)] (Serving, rt_start, sample_client) (Serving, st, c) \<and>
     length (rt_jobs st) = 1 \<and>
     rt_reach client_bus idle_env (Some Handle) [(8961, 3)] (Stopping, st, c) (Returned None, st', c)"
proof -
  obtain st c where run: "rt_reach client_bus idle_env (Some Handle) [(8961, 3)] (Serving, rt_start, sample_client) (Serving, st, c)"
    "rt_jobs st = [(7, new_work 8961 7 3 sample_invoke 0)]" using sample_run by blast
  have inv: "rt_inv [(8961, 3)] st" using rt_reach_inv [OF run(1)] rt_inv_start by simp
  from shutdown_completes [OF inv, of client_bus idle_env Handle c] obtain st' where
    "rt_reach client_bus idle_env (Some Handle) [(8961, 3)] (Stopping, st, c) (Returned None, st', c)" by blast
  with run show ?thesis by (intro exI [of _ st] exI [of _ c] exI [of _ st']) simp
qed

end
