(* ===== verification/Module_Caller.thy ===== *)
theory Module_Caller
  imports Module_Reply
begin

text \<open>
  Calling a module stage over the bus, \<^verbatim>\<open>server-go/bus/module_caller.go\<close>: sending the request in
  fragments, waiting for the correlated result among whatever else arrives, and the
  cancellation on the way out. The bus is again a record of operations on a world
  (\<open>caller_bus\<close>); waiting may go on for ever, so it is a partial function.
  Proved here: what a serving module replies is what the caller returns, whatever is
  interleaved; a request goes out as exactly the fragments the serving side reassembles; a
  call that fails while waiting has cancelled its request, one that fails while sending has
  not; and waiting ends by its deadline once the bus is quiet.
\<close>

section \<open>The caller\<close>

record 'w caller_bus =
  cb_Poll :: "'w \<Rightarrow> ((err + Event option) \<times> 'w) outcome"
  cb_RequestFragment :: "u32 \<Rightarrow> u64 \<Rightarrow> bytes \<Rightarrow> bool \<Rightarrow> 'w \<Rightarrow> (err option \<times> 'w) outcome"
  cb_Cancel :: "u32 \<Rightarrow> u64 \<Rightarrow> 'w \<Rightarrow> (err option \<times> 'w) outcome"
  cb_moduleInlineBudget :: "'w \<Rightarrow> u32"

text \<open>
  The surroundings: the monotonic clock of the deadline field, the time of \<^verbatim>\<open>time.Now\<close> in
  nanoseconds, whether the context has ended, and the sleep between polls.
\<close>

record 'w caller_env =
  ce_clock :: "'w \<Rightarrow> (u64 \<times> u64) option"
  ce_now :: "'w \<Rightarrow> int"
  ce_ctx_err :: "'w \<Rightarrow> bool"
  ce_sleep :: "'w \<Rightarrow> 'w"

text \<open>
  The client of a caller is the world its bus works on, and \<^verbatim>\<open>pollInterval\<close>, always 200
  microseconds, is how long \<open>ce_sleep\<close> takes; the record holds the two remaining fields.
\<close>

record ModuleCaller =
  caller_correlation :: u64
  caller_responseLimit :: u32

lemma caller_update:
  "caller_correlation (mc\<lparr>caller_correlation := c\<rparr>) = c"
  "caller_responseLimit (mc\<lparr>caller_correlation := c\<rparr>) = caller_responseLimit mc"
  by simp_all

definition newModuleCaller :: ModuleCaller where
  "newModuleCaller = \<lparr>caller_correlation = 0, caller_responseLimit = ModuleMessageMaxBody\<rparr>"

text \<open>\<open>NewModuleCaller\<close> and \<open>Call\<close> test for nil: the argument is an option.\<close>

definition NewModuleCaller :: "Client option \<Rightarrow> err + ModuleCaller" where
  "NewModuleCaller client = (if client = None then Inl ErrModuleConfig else Inr newModuleCaller)"

section \<open>Sending\<close>

definition invoke_message :: "u32 \<Rightarrow> u64 \<Rightarrow> u64 \<Rightarrow> nat \<Rightarrow> ModuleMessage" where
  "invoke_message stageID traceID deadlineNS part =
    \<lparr>Operation = ModuleOpInvoke, Status = ModuleStatusOK, StageID = stageID, Flags = 0,
     BodyLen = of_nat part, DeadlineNS = deadlineNS, TraceID = traceID\<rparr>"

text \<open>The buffer \<open>frm\<close> is reused for every fragment.\<close>

partial_function (option) send_chunks ::
    "'w caller_bus \<Rightarrow> nat \<Rightarrow> u32 \<Rightarrow> u64 \<Rightarrow> (nat \<Rightarrow> ModuleMessage) \<Rightarrow> bytes \<Rightarrow> bytes \<Rightarrow> nat \<Rightarrow> 'w \<Rightarrow>
     (err option \<times> 'w) outcome option" where
  "send_chunks bus chunk eventKind correlation message request frm offset w =
    (let part = min (length request - offset) chunk;
         more_frags = (offset + part < length request)
     in case EncodeMessage (message part) frm of
          (Inl e, _) \<Rightarrow> Some (Ret (Some e, w))
        | (Inr written, frm) \<Rightarrow>
            (let frm = blit frm written (sub request offset part)
             in case cb_RequestFragment bus eventKind correlation (take (written + part) frm) more_frags w of
                  Crash \<Rightarrow> Some Crash
                | Ret (Some e, w) \<Rightarrow> Some (Ret (Some e, w))
                | Ret (None, w) \<Rightarrow>
                    if more_frags
                    then send_chunks bus chunk eventKind correlation message request frm (offset + part) w
                    else Some (Ret (None, w))))"

definition send ::
    "'w caller_bus \<Rightarrow> u32 \<Rightarrow> u32 \<Rightarrow> u64 \<Rightarrow> u64 \<Rightarrow> u64 \<Rightarrow> bytes \<Rightarrow> 'w \<Rightarrow> (err option \<times> 'w) outcome option" where
  "send bus eventKind stageID traceID correlation deadlineNS request w =
    (let budget = cb_moduleInlineBudget bus w
     in if budget \<le> of_nat ModuleMessageHeaderLen then Some (Ret (Some ErrModuleRuntime, w))
        else send_chunks bus (unat budget - ModuleMessageHeaderLen) eventKind correlation
               (invoke_message stageID traceID deadlineNS) request (replicate (unat budget) 0) 0 w)"

section \<open>Waiting\<close>

text \<open>What one event means to a waiting call that has gathered \<open>body\<close> so far.\<close>

datatype await = AwaitMore bytes | AwaitFail err | AwaitDone bytes

definition await_event :: "u32 \<Rightarrow> u64 \<Rightarrow> u32 \<Rightarrow> bytes \<Rightarrow> Event \<Rightarrow> await" where
  "await_event eventKind correlation responseLimit body event =
    (let f = EventFrame event in
     if CorrelationID f = correlation \<and> EventKind f = KindCapabilityAbsent
     then AwaitFail ErrModuleCallCapabilityAbsent
     else if CorrelationID f = correlation \<and> EventKind f = KindError
     then AwaitFail ErrModuleCallRejected
     else if EventKind f \<noteq> eventKind \<or> CorrelationID f \<noteq> correlation then AwaitMore body
     else case DecodeModuleMessage (Payload event) of
       Inl _ \<Rightarrow> AwaitMore body
     | Inr message \<Rightarrow>
         if Operation message \<noteq> ModuleOpResult then AwaitMore body
         else if Status message \<noteq> ModuleStatusOK then AwaitFail (ModuleCallStatusError (Status message))
         else if ModuleMessageHeaderLen + unat (BodyLen message) > length (Payload event)
         then AwaitFail ErrModuleRuntime
         else if of_nat (length body) + BodyLen message > responseLimit then AwaitFail ErrModuleRuntime
         else
           (let body = body @ sub (Payload event) ModuleMessageHeaderLen (unat (BodyLen message))
            in if HdrFlags f AND FMore \<noteq> 0 then AwaitMore body else AwaitDone body))"

partial_function (option) awaitReply ::
    "'w caller_bus \<Rightarrow> 'w caller_env \<Rightarrow> u32 \<Rightarrow> u64 \<Rightarrow> int option \<Rightarrow> u32 \<Rightarrow> bytes \<Rightarrow> 'w \<Rightarrow>
     ((err + bytes) \<times> 'w) outcome option" where
  "awaitReply bus env eventKind correlation expiry responseLimit body w =
    (case cb_Poll bus w of
       Crash \<Rightarrow> Some Crash
     | Ret (Inl e, w) \<Rightarrow> Some (Ret (Inl e, w))
     | Ret (Inr None, w) \<Rightarrow>
         if ce_ctx_err env w then Some (Ret (Inl (Join ErrModuleCallCancelled CtxErr), w))
         else if expiry \<noteq> None \<and> ce_now env w > the expiry then Some (Ret (Inl ErrModuleCallDeadline, w))
         else awaitReply bus env eventKind correlation expiry responseLimit body (ce_sleep env w)
     | Ret (Inr (Some event), w) \<Rightarrow>
         (case await_event eventKind correlation responseLimit body event of
            AwaitMore body \<Rightarrow> awaitReply bus env eventKind correlation expiry responseLimit body w
          | AwaitFail e \<Rightarrow> Some (Ret (Inl e, w))
          | AwaitDone body \<Rightarrow> Some (Ret (Inr body, w))))"

section \<open>The call\<close>

definition Call ::
    "'w caller_bus \<Rightarrow> 'w caller_env \<Rightarrow> ModuleCaller option \<Rightarrow> u32 \<Rightarrow> u32 \<Rightarrow> u64 \<Rightarrow> int \<Rightarrow> bytes \<Rightarrow> 'w \<Rightarrow>
     ((err + bytes) \<times> ModuleCaller option \<times> 'w) outcome option" where
  "Call bus env m eventKind stageID traceID deadline request w =
    (case m of
       None \<Rightarrow> Some (Ret (Inl ErrModuleConfig, m, w))
     | Some mc \<Rightarrow>
         if (of_nat (length request) :: u32) > ModuleMessageMaxBody
         then Some (Ret (Inl ErrModuleConfig, m, w))
         else
           (let mc = mc\<lparr>caller_correlation := caller_correlation mc + 1\<rparr>;
                correlation = caller_correlation mc;
                deadlineNS = (if deadline > 0 then monotonicNowNS (ce_clock env w) + of_int deadline else 0)
            in case send bus eventKind stageID traceID correlation deadlineNS request w of
                 None \<Rightarrow> None
               | Some Crash \<Rightarrow> Some Crash
               | Some (Ret (Some e, w)) \<Rightarrow> Some (Ret (Inl e, Some mc, w))
               | Some (Ret (None, w)) \<Rightarrow>
                   (let expiry = (if deadline > 0 then Some (ce_now env w + deadline) else None)
                    in case awaitReply bus env eventKind correlation expiry (caller_responseLimit mc) [] w of
                         None \<Rightarrow> None
                       | Some Crash \<Rightarrow> Some Crash
                       | Some (Ret (Inl e, w)) \<Rightarrow>
                           (case cb_Cancel bus eventKind correlation w of
                              Crash \<Rightarrow> Some Crash
                            | Ret (_, w) \<Rightarrow> Some (Ret (Inl e, Some mc, w)))
                       | Some (Ret (Inr body, w)) \<Rightarrow> Some (Ret (Inr body, Some mc, w)))))"

definition client_caller_bus :: "Client caller_bus" where
  "client_caller_bus = \<lparr>cb_Poll = Poll, cb_RequestFragment = RequestFragment, cb_Cancel = Cancel,
     cb_moduleInlineBudget = c_inlineBudget\<rparr>"

section \<open>Waiting for a result among other traffic\<close>

fun await_events :: "u32 \<Rightarrow> u64 \<Rightarrow> u32 \<Rightarrow> bytes \<Rightarrow> Event list \<Rightarrow> await" where
  "await_events eventKind correlation limit body [] = AwaitMore body"
| "await_events eventKind correlation limit body (e # es) =
    (case await_event eventKind correlation limit body e of
       AwaitMore body \<Rightarrow> await_events eventKind correlation limit body es | r \<Rightarrow> r)"

text \<open>
  What a wait observes: the events that polls hand out from \<open>w\<close> on, with any number of empty
  polls in between, none of which finds the context ended or the deadline passed.
\<close>

inductive await_run ::
    "'w caller_bus \<Rightarrow> 'w caller_env \<Rightarrow> int option \<Rightarrow> 'w \<Rightarrow> Event list \<Rightarrow> 'w \<Rightarrow> bool"
  for bus :: "'w caller_bus" and env and expiry where
  end_run: "await_run bus env expiry w [] w"
| event: "cb_Poll bus w = Ret (Inr (Some e), w1) \<Longrightarrow> await_run bus env expiry w1 es w' \<Longrightarrow>
    await_run bus env expiry w (e # es) w'"
| idle: "cb_Poll bus w = Ret (Inr None, w1) \<Longrightarrow> \<not> ce_ctx_err env w1 \<Longrightarrow>
    \<not> (expiry \<noteq> None \<and> ce_now env w1 > the expiry) \<Longrightarrow>
    await_run bus env expiry (ce_sleep env w1) es w' \<Longrightarrow> await_run bus env expiry w es w'"

lemma awaitReply_run:
  "await_run bus env expiry w es w' \<Longrightarrow>
   (case await_events eventKind correlation limit body es of
      AwaitMore b \<Rightarrow> awaitReply bus env eventKind correlation expiry limit body w =
        awaitReply bus env eventKind correlation expiry limit b w'
    | AwaitFail e \<Rightarrow> \<exists>w''. awaitReply bus env eventKind correlation expiry limit body w = Some (Ret (Inl e, w''))
    | AwaitDone b \<Rightarrow> \<exists>w''. awaitReply bus env eventKind correlation expiry limit body w = Some (Ret (Inr b, w'')))"
proof (induction arbitrary: body rule: await_run.induct)
  case (event w e w1 es w')
  have *: "awaitReply bus env eventKind correlation expiry limit body w =
    (case await_event eventKind correlation limit body e of
       AwaitMore body \<Rightarrow> awaitReply bus env eventKind correlation expiry limit body w1
     | AwaitFail e \<Rightarrow> Some (Ret (Inl e, w1))
     | AwaitDone body \<Rightarrow> Some (Ret (Inr body, w1)))"
    by (subst awaitReply.simps) (simp add: event.hyps(1))
  then show ?case
  proof (cases "await_event eventKind correlation limit body e")
    case (AwaitMore x1)
    with * event.IH [of x1] show ?thesis by (simp split: await.splits)
  qed auto
next
  case (idle w w1 es w')
  have *: "awaitReply bus env eventKind correlation expiry limit body w =
      awaitReply bus env eventKind correlation expiry limit body (ce_sleep env w1)"
    using idle.hyps by (subst awaitReply.simps) auto
  show ?case unfolding * by (rule idle.IH)
qed auto

text \<open>An event that carries a fragment, and a stream in which a call's events are those of a reply.\<close>

definition fragment_event :: "fragment \<Rightarrow> Event \<Rightarrow> bool" where
  "fragment_event fr e \<longleftrightarrow> (case fr of (kind, correlation, payload, m) \<Rightarrow>
     EventKind (EventFrame e) = kind \<and> CorrelationID (EventFrame e) = correlation \<and>
     Payload e = payload \<and> (HdrFlags (EventFrame e) AND FMore \<noteq> 0 \<longleftrightarrow> m))"

definition delivered :: "u64 \<Rightarrow> fragment list \<Rightarrow> Event list \<Rightarrow> bool" where
  "delivered correlation frs es \<longleftrightarrow>
     list_all2 fragment_event frs (filter (\<lambda>e. CorrelationID (EventFrame e) = correlation) es)"

lemma await_event_other:
  "CorrelationID (EventFrame e) \<noteq> correlation \<Longrightarrow>
   await_event eventKind correlation limit body e = AwaitMore body"
  by (simp add: await_event_def Let_def)

lemma await_event_fragment:
  assumes fr: "fragment_of kind correlation stageID traceID status budget fr" and ev: "fragment_event fr e"
    and kind: "kind \<noteq> KindCapabilityAbsent" "kind \<noteq> KindError"
    and small: "length body + length (fragment_body fr) \<le> unat limit"
      "length (fragment_body fr) \<le> unat ModuleMessageMaxBody"
  shows "await_event kind correlation limit body e =
    (if status \<noteq> ModuleStatusOK then AwaitFail (ModuleCallStatusError status)
     else if fragment_more fr then AwaitMore (body @ fragment_body fr) else AwaitDone (body @ fragment_body fr))"
proof -
  obtain k c payload m where f: "fr = (k, c, payload, m)" by (cases fr)
  let ?b = "fragment_body fr" and ?msg = "reply_message stageID traceID status (length (fragment_body fr))"
  have dec: "DecodeModuleMessage payload = Inr ?msg" and keys: "k = kind" "c = correlation"
    using fr by (simp_all add: fragment_of_def f)
  have bl: "unat (BodyLen ?msg) = length ?b"
    using small(2) by (simp add: reply_message_def unat_of_nat)
  have pl: "length payload = 40 + length ?b"
    using Decode_message_Inr(2) [OF dec] by (simp add: f fragment_body_def)
  have b: "sub payload 40 (unat (BodyLen ?msg)) = ?b"
    unfolding bl by (simp add: sub_def f fragment_body_def)
  have "unat (of_nat (length body) + BodyLen ?msg) = length body + length ?b"
    using small(1) unat_u32_less [of limit] bl
    by (simp add: unat_word_ariths unat_of_nat) 
  then have fits: "\<not> of_nat (length body) + BodyLen ?msg > limit"
    using small(1) by (simp add: word_less_nat_alt)
  show ?thesis
    using ev dec keys kind pl b fits bl
    by (auto simp: await_event_def Let_def fragment_event_def f fragment_more_def reply_message_def)
qed

lemma await_fragments:
  assumes kind: "kind \<noteq> KindCapabilityAbsent" "kind \<noteq> KindError"
  shows "list_all (fragment_of kind correlation stageID traceID status budget) frs \<Longrightarrow> frs \<noteq> [] \<Longrightarrow>
    map fragment_more frs = replicate (length frs - 1) True @ [False] \<Longrightarrow>
    length body + length (concat (map fragment_body frs)) \<le> unat limit \<Longrightarrow>
    length (concat (map fragment_body frs)) \<le> unat ModuleMessageMaxBody \<Longrightarrow>
    delivered correlation frs es \<Longrightarrow>
    await_events kind correlation limit body es =
      (if status = ModuleStatusOK then AwaitDone (body @ concat (map fragment_body frs))
       else AwaitFail (ModuleCallStatusError status))"
proof (induction es arbitrary: frs body)
  case (Cons e es)
  show ?case
  proof (cases "CorrelationID (EventFrame e) = correlation")
    case False
    then have "delivered correlation frs es" using Cons.prems(6) by (simp add: delivered_def)
    with Cons.IH [OF Cons.prems(1-5) this] await_event_other [OF False] show ?thesis by simp
  next
    case True
    obtain fr frs' where frs: "frs = fr # frs'" using Cons.prems(2) by (cases frs) auto
    have ev: "fragment_event fr e" and rest: "delivered correlation frs' es"
      using Cons.prems(6) True by (simp_all add: delivered_def frs)
    have "length body + length (fragment_body fr) \<le> unat limit"
      and len: "length (fragment_body fr) \<le> unat ModuleMessageMaxBody"
      using Cons.prems(4,5) by (simp_all add: frs)
    note step = await_event_fragment [OF _ ev kind this]
    have fr: "fragment_of kind correlation stageID traceID status budget fr"
      using Cons.prems(1) by (simp add: frs)
    have more: "fragment_more fr \<longleftrightarrow> frs' \<noteq> []"
      "frs' \<noteq> [] \<Longrightarrow> map fragment_more frs' = replicate (length frs' - 1) True @ [False]"
      using Cons.prems(3) by (cases frs'; simp add: frs)+
    show ?thesis
    proof (cases "status = ModuleStatusOK \<and> frs' \<noteq> []")
      case True
      have "length (body @ fragment_body fr) + length (concat (map fragment_body frs')) \<le> unat limit"
        "length (concat (map fragment_body frs')) \<le> unat ModuleMessageMaxBody"
        using Cons.prems(4,5) by (simp_all add: frs)
      with Cons.IH [of frs' "body @ fragment_body fr"] Cons.prems(1) more rest True step [OF fr]
      show ?thesis by (simp add: frs)
    next
      case False
      with step [OF fr] more(1) show ?thesis by (auto simp: frs)
    qed
  qed
qed (simp add: delivered_def)

section \<open>Waiting ends\<close>

text \<open>
  What makes a wait with a deadline end: a poll takes no time and every event it hands out
  brings the number of pending events down, nothing new arrives while the caller sleeps, and
  every sleep moves the clock on, by \<open>interval\<close> at most.
\<close>

locale timed_bus =
  fixes bus :: "'w caller_bus" and env :: "'w caller_env" and good :: "'w \<Rightarrow> bool"
    and pending :: "'w \<Rightarrow> nat" and interval :: int
  assumes poll: "good w \<Longrightarrow> cb_Poll bus w = Ret (r, w') \<Longrightarrow>
      good w' \<and> ce_now env w' = ce_now env w \<and>
      (case r of Inr (Some e) \<Rightarrow> pending w' < pending w | _ \<Rightarrow> pending w' \<le> pending w)"
    and sleep: "good w \<Longrightarrow> good (ce_sleep env w) \<and> pending (ce_sleep env w) \<le> pending w \<and>
      ce_now env w < ce_now env (ce_sleep env w) \<and> ce_now env (ce_sleep env w) \<le> ce_now env w + interval"
begin

lemma awaitReply_returns:
  "good w \<Longrightarrow> \<exists>r. awaitReply bus env kind correlation (Some expiry) limit body w = Some r \<and>
    (\<forall>x w'. r = Ret (x, w') \<longrightarrow> ce_now env w' \<le> max (ce_now env w) (expiry + interval))"
proof (induction "pending w + nat (expiry + 1 - ce_now env w)" arbitrary: body w rule: less_induct)
  case less
  let ?await = "awaitReply bus env kind correlation (Some expiry) limit"
  have IH: "\<exists>r. ?await b w' = Some r \<and> (\<forall>x w''. r = Ret (x, w'') \<longrightarrow>
      ce_now env w'' \<le> max (ce_now env w) (expiry + interval))"
    if "good w'" "pending w' + nat (expiry + 1 - ce_now env w') < pending w + nat (expiry + 1 - ce_now env w)"
      "ce_now env w' \<le> max (ce_now env w) (expiry + interval)" for b w'
    using less.hyps [OF that(2,1), of b] that(3) by (auto simp: max_def split: if_splits)
  show ?case
  proof (cases "cb_Poll bus w")
    case Crash
    then show ?thesis by (subst awaitReply.simps) simp
  next
    case (Ret rw)
    then obtain r w1 where p: "cb_Poll bus w = Ret (r, w1)" by (cases rw) auto
    note w1 = poll [OF less.prems p]
    consider e where "r = Inl e" | e where "r = Inr (Some e)" | "r = Inr None"
      by (metis old.sum.exhaust option.exhaust)
    then show ?thesis
    proof cases
      case 1
      with p w1 show ?thesis by (subst awaitReply.simps) simp
    next
      case (2 e)
      have "\<exists>r. ?await b w1 = Some r \<and> (\<forall>x w''. r = Ret (x, w'') \<longrightarrow>
          ce_now env w'' \<le> max (ce_now env w) (expiry + interval))" for b
        using w1 2 by (intro IH) auto
      with p 2 w1 show ?thesis
        by (subst awaitReply.simps) (simp split: await.split)
    next
      case 3
      show ?thesis
      proof (cases "ce_ctx_err env w1 \<or> ce_now env w1 > expiry")
        case True
        with p 3 w1 show ?thesis by (subst awaitReply.simps) auto
      next
        case False
        note s = sleep [of w1]
        have "\<exists>r. ?await body (ce_sleep env w1) = Some r \<and> (\<forall>x w''. r = Ret (x, w'') \<longrightarrow>
            ce_now env w'' \<le> max (ce_now env w) (expiry + interval))"
          using w1 3 s False by (intro IH) auto
        with p 3 False show ?thesis by (subst awaitReply.simps) simp
      qed
    qed
  qed
qed

end

text \<open>
  The attached client beside a clock that only a sleep moves, by the caller's 200 microseconds,
  and a context that ends at \<open>ctx_end\<close> if at all.
\<close>

definition timed_client :: "(Client \<times> int) caller_bus" where
  "timed_client =
    \<lparr>cb_Poll = (\<lambda>(c, t). obind (Poll c) (\<lambda>(r, c). Ret (r, (c, t)))),
     cb_RequestFragment = (\<lambda>kind correlation payload m (c, t).
       obind (RequestFragment kind correlation payload m c) (\<lambda>(r, c). Ret (r, (c, t)))),
     cb_Cancel = (\<lambda>kind correlation (c, t). obind (Cancel kind correlation c) (\<lambda>(r, c). Ret (r, (c, t)))),
     cb_moduleInlineBudget = c_inlineBudget \<circ> fst\<rparr>"

definition timed_env :: "int option \<Rightarrow> (Client \<times> int) caller_env" where
  "timed_env ctx_end =
    \<lparr>ce_clock = (\<lambda>(_, t). Some (0, of_int t)), ce_now = snd,
     ce_ctx_err = (\<lambda>(_, t). case ctx_end of None \<Rightarrow> False | Some e \<Rightarrow> e \<le> t),
     ce_sleep = (\<lambda>(c, t). (c, t + 200000))\<rparr>"

lemma Poll_pending:
  assumes "client_inv c" and "same_epoch c" and p: "Poll c = Ret (r, c')"
  shows "client_inv c' \<and> same_epoch c' \<and> (case r of
      Inr (Some e) \<Rightarrow> length (unread c') < length (unread c) | _ \<Rightarrow> length (unread c') \<le> length (unread c))"
proof (cases "unread c")
  case Nil
  with Poll_cases [OF assms(1,2)] p show ?thesis by auto
next
  case (Cons slot rest)
  obtain d f where d: "Decode slot zero_Frame = (d, f)" by (cases "Decode slot zero_Frame")
  have step: "poll_step c slot rest" using Poll_cases [OF assms(1,2)] Cons by simp
  show ?thesis
  proof (cases "d = OK")
    case True
    with step d p Cons show ?thesis by (auto simp: poll_step_def split: if_splits)
  next
    case False
    then have "\<exists>c'. Poll c = Ret (Inr None, c') \<and> client_inv c' \<and> unread c' = rest \<and> same_epoch c'"
      using step d by (cases d) (auto simp: poll_step_def)
    with p Cons show ?thesis by auto
  qed
qed

interpretation timed_client: timed_bus timed_client "timed_env ctx_end" 
  "\<lambda>(c, _). client_inv c \<and> same_epoch c" "length \<circ> unread \<circ> fst" 200000
proof unfold_locales
  fix w w' :: "Client \<times> int" and r
  assume inv: "case w of (c, _) \<Rightarrow> client_inv c \<and> same_epoch c" and p: "cb_Poll timed_client w = Ret (r, w')"
  obtain c t where w: "w = (c, t)" by (cases w)
  obtain c' where c': "Poll c = Ret (r, c')" "w' = (c', t)"
    using p by (auto simp: w timed_client_def obind_Ret_iff)
  have "client_inv c \<and> same_epoch c" using inv by (simp add: w)
  note polled = Poll_pending [OF this [THEN conjunct1] this [THEN conjunct2] c'(1)]
  from polled show "(case w' of (c, _) \<Rightarrow> client_inv c \<and> same_epoch c) \<and> ce_now (timed_env ctx_end) w' = ce_now (timed_env ctx_end) w \<and>
      (case r of Inr (Some e) \<Rightarrow> (length \<circ> unread \<circ> fst) w' < (length \<circ> unread \<circ> fst) w
       | _ \<Rightarrow> (length \<circ> unread \<circ> fst) w' \<le> (length \<circ> unread \<circ> fst) w)"
    by (auto simp: w c'(2) timed_env_def split: sum.splits option.splits)
qed (auto simp: timed_env_def)

section \<open>What a call sends\<close>

text \<open>Any bus, with a log of the fragments it accepted and the cancellations attempted.\<close>

type_synonym sent = "fragment + u32 \<times> u64"

definition logged_caller :: "'w caller_bus \<Rightarrow> ('w \<times> sent list) caller_bus" where
  "logged_caller bus =
    \<lparr>cb_Poll = (\<lambda>(w, log). obind (cb_Poll bus w) (\<lambda>(r, w). Ret (r, (w, log)))),
     cb_RequestFragment = (\<lambda>kind correlation payload m (w, log).
       obind (cb_RequestFragment bus kind correlation payload m w) (\<lambda>(r, w).
         Ret (r, (w, if r = None then log @ [Inl (kind, correlation, payload, m)] else log)))),
     cb_Cancel = (\<lambda>kind correlation (w, log).
       obind (cb_Cancel bus kind correlation w) (\<lambda>(r, w). Ret (r, (w, log @ [Inr (kind, correlation)])))),
     cb_moduleInlineBudget = cb_moduleInlineBudget bus \<circ> fst\<rparr>"

definition logged_caller_env :: "'w caller_env \<Rightarrow> ('w \<times> sent list) caller_env" where
  "logged_caller_env env =
    \<lparr>ce_clock = ce_clock env \<circ> fst, ce_now = ce_now env \<circ> fst, ce_ctx_err = ce_ctx_err env \<circ> fst,
     ce_sleep = (\<lambda>(w, log). (ce_sleep env w, log))\<rparr>"

lemma invoke_message_valid:
  "valid_message (invoke_message stageID traceID deadlineNS n) \<longleftrightarrow>
   stageID \<noteq> 0 \<and> of_nat n \<le> ModuleMessageMaxBody"
  by (simp add: valid_message_def invoke_message_def)

lemma send_chunks_logged:
  fixes bus :: "'w caller_bus" and stageID :: u32 and traceID deadlineNS :: u64
  defines "message \<equiv> invoke_message stageID traceID deadlineNS"
  assumes cap: "0 < cap" and stage: "stageID \<noteq> 0" and len: "length request \<le> unat ModuleMessageMaxBody"
  shows "offset \<le> length request \<Longrightarrow> length frm = 40 + cap \<Longrightarrow>
    send_chunks (logged_caller bus) cap kind correlation message request frm offset wl = Some (Ret (r, wl')) \<Longrightarrow>
    (let frs = fragments kind correlation message (chunks cap (drop offset request)) in
      if r = None then snd wl' = snd wl @ map Inl frs
      else \<exists>n < length frs. snd wl' = snd wl @ map Inl (take n frs))"
proof (induction "length request - offset" arbitrary: offset frm wl rule: less_induct)
  case less
  define part where "part = min (length request - offset) cap"
  define more where "more \<longleftrightarrow> offset + part < length request"
  define chunk where "chunk = sub request offset part"
  have part: "part \<le> length request" "offset + part \<le> length request" "part \<le> cap"
    using less.prems by (auto simp: part_def)
  have chunk: "length chunk = part" "chunk = take part (drop offset request)"
    using part by (simp_all add: chunk_def sub_def)
  have "(of_nat part :: u32) \<le> ModuleMessageMaxBody"
    using part len by (simp add: word_le_nat_alt unat_of_nat)
  then have enc: "EncodeMessage (message part) frm = (Inr 40, message_bytes (message part) @ drop 40 frm)"
    using stage less.prems(2) by (simp add: message_def invoke_message_valid EncodeMessage_layout)
  define frm' where "frm' = message_bytes (message part) @ blit (drop 40 frm) 0 chunk"
  have frm': "blit (message_bytes (message part) @ drop 40 frm) 40 chunk = frm'" "length frm' = 40 + cap"
    using less.prems(2) chunk part by (simp_all add: frm'_def blit_skip)
  have payload: "take (40 + part) frm' = message_bytes (message part) @ chunk"
    using less.prems(2) part(3) chunk by (simp add: frm'_def blit_def min_absorb2)
  have step: "send_chunks (logged_caller bus) cap kind correlation message request frm offset wl =
    (case cb_RequestFragment (logged_caller bus) kind correlation (message_bytes (message part) @ chunk) more wl of
       Crash \<Rightarrow> Some Crash
     | Ret (Some e, w) \<Rightarrow> Some (Ret (Some e, w))
     | Ret (None, w) \<Rightarrow>
         if more then send_chunks (logged_caller bus) cap kind correlation message request frm' (offset + part) w
         else Some (Ret (None, w)))"
    by (subst send_chunks.simps)
      (simp only: Let_def part_def [symmetric] more_def [symmetric] chunk_def [symmetric] enc prod.case sum.case
        frm' payload)
  obtain r1 w1 where req: "cb_RequestFragment (logged_caller bus) kind correlation
      (message_bytes (message part) @ chunk) more wl = Ret (r1, w1)"
    using less.prems(3) unfolding step by (auto split: outcome.splits)
  have log: "snd w1 = (if r1 = None then snd wl @ [Inl (kind, correlation, message_bytes (message part) @ chunk, more)]
      else snd wl)"
    using req by (cases wl) (auto simp: logged_caller_def obind_Ret_iff)
  have frs: "fragments kind correlation message (chunks cap (drop offset request)) =
    (kind, correlation, message_bytes (message part) @ chunk, more) #
      (if more then fragments kind correlation message (chunks cap (drop (offset + part) request)) else [])"
    using cap less.prems(1) chunk chunks.simps [of cap "drop offset request"]
    by (auto simp: part_def more_def min_def add.commute split: if_splits)
  have run: "(case r1 of Some e \<Rightarrow> Some (Ret (Some e, w1)) | None \<Rightarrow>
      if more then send_chunks (logged_caller bus) cap kind correlation message request frm' (offset + part) w1
      else Some (Ret (None, w1))) = Some (Ret (r, wl'))"
    using less.prems(3) unfolding step req by (simp split: option.splits)
  show ?case
  proof (cases "r1 = None \<and> more")
    case False
    then show ?thesis using run log frs by (auto simp: Let_def split: option.splits)
  next
    case True
    then have smaller: "length request - (offset + part) < length request - offset"
      using cap by (auto simp: more_def part_def)
    from True run have rest: "send_chunks (logged_caller bus) cap kind correlation message request frm'
      (offset + part) w1 = Some (Ret (r, wl'))" by simp
    from less.hyps [OF smaller part(2) frm'(2) rest] True log show ?thesis
      unfolding Let_def frs by (auto simp: Ex_less_Suc2)
  qed
qed

text \<open>Waiting sends nothing.\<close>

lemma awaitReply_logged:
  assumes "awaitReply (logged_caller bus) env eventKind correlation expiry limit body wl = Some (Ret (r, wl'))"
    and env: "\<And>wl. snd (ce_sleep env wl) = snd wl"
  shows "snd wl' = snd wl"
proof -
  let ?P = "\<lambda>b e k c x l body wl y. b = logged_caller bus \<longrightarrow> e = env \<longrightarrow>
    (\<forall>r wl'. y = Ret (r, wl') \<longrightarrow> snd wl' = snd wl)"
  have "?P (logged_caller bus) env eventKind correlation expiry limit body wl (Ret (r, wl'))"
  proof (rule awaitReply.raw_induct [of ?P])
    fix await b e k c x l body wl y
    assume IH: "\<And>b e k c x l body wl y. await b e k c x l body wl = Some y \<Longrightarrow> ?P b e k c x l body wl y"
      and eq: "(case cb_Poll b wl of
       Crash \<Rightarrow> Some Crash
     | Ret (Inl e, w) \<Rightarrow> Some (Ret (Inl e, w))
     | Ret (Inr None, w) \<Rightarrow>
         if ce_ctx_err e w then Some (Ret (Inl (Join ErrModuleCallCancelled CtxErr), w))
         else if x \<noteq> None \<and> ce_now e w > the x then Some (Ret (Inl ErrModuleCallDeadline, w))
         else await b e k c x l body (ce_sleep e w)
     | Ret (Inr (Some event), w) \<Rightarrow>
         (case await_event k c l body event of
            AwaitMore body \<Rightarrow> await b e k c x l body w
          | AwaitFail e \<Rightarrow> Some (Ret (Inl e, w))
          | AwaitDone body \<Rightarrow> Some (Ret (Inr body, w)))) = Some y"
    show "?P b e k c x l body wl y"
    proof (intro impI allI)
      fix r wl'
      assume b: "b = logged_caller bus" and e: "e = env" and y: "y = Ret (r, wl')"
      obtain r1 w1 where poll: "cb_Poll b wl = Ret (r1, w1)"
        using eq y by (cases "cb_Poll b wl") auto
      then have w1: "snd w1 = snd wl" by (cases wl) (auto simp: b logged_caller_def obind_Ret_iff)
      have IH': "await b e k c x l body' w2 = Some y \<Longrightarrow> snd wl' = snd w2" for body' w2
        using IH [of b e k c x l body' w2 y] b e y by (cases wl') simp
      consider e1 where "r1 = Inl e1" | "r1 = Inr None" | event where "r1 = Inr (Some event)"
        by (metis old.sum.exhaust option.exhaust)
      then show "snd wl' = snd wl"
      proof cases
        case 2
        then show ?thesis
          using eq poll w1 y IH' [of body "ce_sleep e w1"] env [of w1] e by (auto split: if_splits)
      next
        case (3 event)
        then show ?thesis
          using eq poll w1 y IH' by (auto split: await.splits)
      qed (use eq poll w1 y in simp)
    qed
  qed (rule assms(1))
  then show ?thesis by blast
qed

section \<open>Properties\<close>



text \<open>The ways a call that got past the length check ends, on any bus.\<close>

lemma Call_outcomes:
  assumes "Call bus env (Some mc) eventKind stageID traceID deadline request w = Some (Ret (r, m', w'))"
    and "length request \<le> unat ModuleMessageMaxBody"
  shows "m' = Some (mc\<lparr>caller_correlation := caller_correlation mc + 1\<rparr>) \<and>
    (\<exists>r1 w1. send bus eventKind stageID traceID (caller_correlation mc + 1)
        (if deadline > 0 then monotonicNowNS (ce_clock env w) + of_int deadline else 0) request w = Some (Ret (r1, w1)) \<and>
      (case r1 of Some e \<Rightarrow> r = Inl e \<and> w' = w1
       | None \<Rightarrow> \<exists>expiry w2. awaitReply bus env eventKind (caller_correlation mc + 1) expiry (caller_responseLimit mc) [] w1 =
            Some (Ret (r, w2)) \<and>
          (case r of Inr _ \<Rightarrow> w' = w2 | Inl _ \<Rightarrow> \<exists>x. cb_Cancel bus eventKind (caller_correlation mc + 1) w2 = Ret (x, w'))))"
proof -
  let ?corr = "caller_correlation mc + 1"
  let ?mc = "mc\<lparr>caller_correlation := ?corr\<rparr>"
  have fits: "\<not> (of_nat (length request) :: u32) > ModuleMessageMaxBody"
    using assms(2) by (simp add: word_less_nat_alt unat_of_nat)
  define run where "run = send bus eventKind stageID traceID ?corr
    (if deadline > 0 then monotonicNowNS (ce_clock env w) + of_int deadline else 0) request w"
  define waits where "waits w1 = awaitReply bus env eventKind ?corr
    (if deadline > 0 then Some (ce_now env w1 + deadline) else None) (caller_responseLimit mc) [] w1" for w1
  have call: "(case run of
         None \<Rightarrow> None
       | Some Crash \<Rightarrow> Some Crash
       | Some (Ret (Some e, w)) \<Rightarrow> Some (Ret (Inl e, Some ?mc, w))
       | Some (Ret (None, w)) \<Rightarrow>
           (case waits w of
              None \<Rightarrow> None
            | Some Crash \<Rightarrow> Some Crash
            | Some (Ret (Inl e, w)) \<Rightarrow>
                (case cb_Cancel bus eventKind ?corr w of
                   Crash \<Rightarrow> Some Crash
                 | Ret (_, w) \<Rightarrow> Some (Ret (Inl e, Some ?mc, w)))
            | Some (Ret (Inr body, w)) \<Rightarrow> Some (Ret (Inr body, Some ?mc, w)))) = Some (Ret (r, m', w'))"
    using assms(1)
    unfolding run_def waits_def Call_def Let_def option.case if_not_P [OF fits] caller_update .
  then obtain r1 w1 where r1: "run = Some (Ret (r1, w1))"
    by (cases run; cases "the run") auto
  show ?thesis
  proof (cases r1)
    case (Some e)
    with call r1 show ?thesis by (auto simp: run_def)
  next
    case None
    with call r1 obtain r2 w2 where r2: "waits w1 = Some (Ret (r2, w2))"
      by (cases "waits w1"; cases "the (waits w1)") auto
    then have "r = r2 \<and> m' = Some ?mc \<and>
        (case r2 of Inr _ \<Rightarrow> w' = w2 | Inl _ \<Rightarrow> \<exists>x. cb_Cancel bus eventKind ?corr w2 = Ret (x, w'))"
      using call r1 None by (cases r2) (auto split: outcome.splits)
    with None r1 r2 show ?thesis unfolding run_def waits_def by fastforce
  qed
qed

lemma send_logged:
  assumes "send (logged_caller bus) eventKind stageID traceID correlation dl request (w, []) = Some (Ret (r1, wl1))"
    and "length request \<le> unat ModuleMessageMaxBody" and "stageID \<noteq> 0" and "40 < cb_moduleInlineBudget bus w"
  shows "let frs = fragments eventKind correlation (invoke_message stageID traceID dl)
        (chunks (unat (cb_moduleInlineBudget bus w) - 40) request)
    in if r1 = None then snd wl1 = map Inl frs else \<exists>n < length frs. snd wl1 = map Inl (take n frs)"
proof -
  let ?b = "cb_moduleInlineBudget bus w"
  have cap: "0 < unat ?b - 40" and budget: "\<not> ?b \<le> 40" using assms(4) by (simp_all add: word_less_nat_alt word_le_nat_alt)
  have b: "cb_moduleInlineBudget (logged_caller bus) (w, []) = ?b" by (simp add: logged_caller_def)
  have "send_chunks (logged_caller bus) (unat ?b - 40) eventKind correlation (invoke_message stageID traceID dl)
      request (replicate (unat ?b) 0) 0 (w, []) = Some (Ret (r1, wl1))"
    using assms(1) budget by (simp add: send_def b Let_def)
  from send_chunks_logged [OF cap assms(3,2) _ _ this] assms(4) show ?thesis
    by (cases r1) (simp_all add: Let_def word_less_nat_alt)
qed

text \<open>
  C36. A call sends its request and nothing else, and withdraws it when the wait for the answer
  fails: on any bus, a call that returns a body has sent exactly the fragments of its request
  under a fresh correlation id; one that fails has either sent them all and then published
  exactly one cancellation of that id, or was refused half way through sending, and then a
  proper prefix of the request is left with the host and no cancellation follows it.
\<close>

theorem Call_sends_and_cancels:
  fixes bus :: "'w caller_bus" and mc :: ModuleCaller and eventKind stageID :: u32 and traceID :: u64
  assumes "Call (logged_caller bus) (logged_caller_env env) (Some mc) eventKind stageID traceID deadline request
      (w, []) = Some (Ret (r, m', (w', log)))"
    and "length request \<le> unat ModuleMessageMaxBody" and "stageID \<noteq> 0" and "40 < cb_moduleInlineBudget bus w"
  shows "let correlation = caller_correlation mc + 1;
      deadlineNS = (if deadline > 0 then monotonicNowNS (ce_clock env w) + of_int deadline else 0);
      frs = fragments eventKind correlation (invoke_message stageID traceID deadlineNS)
        (chunks (unat (cb_moduleInlineBudget bus w) - 40) request)
    in m' = Some (mc\<lparr>caller_correlation := correlation\<rparr>) \<and>
      (case r of
         Inr body \<Rightarrow> log = map Inl frs
       | Inl e \<Rightarrow> log = map Inl frs @ [Inr (eventKind, correlation)] \<or>
           (\<exists>n < length frs. log = map Inl (take n frs)))"
proof -
  let ?corr = "caller_correlation mc + 1" and ?b = "cb_moduleInlineBudget bus w" and ?bus = "logged_caller bus"
  let ?dl = "if deadline > 0 then monotonicNowNS (ce_clock env w) + of_int deadline else 0"
  let ?frs = "fragments eventKind ?corr (invoke_message stageID traceID ?dl) (chunks (unat ?b - 40) request)"
  have clock: "ce_clock (logged_caller_env env) (w, []) = ce_clock env w" by (simp add: logged_caller_env_def)
  from Call_outcomes [OF assms(1,2), unfolded clock] obtain r1 wl1 where m': "m' = Some (mc\<lparr>caller_correlation := ?corr\<rparr>)"
    and sent: "send ?bus eventKind stageID traceID ?corr ?dl request (w, []) = Some (Ret (r1, wl1))"
    and rest: "case r1 of Some e \<Rightarrow> r = Inl e \<and> (w', log) = wl1
      | None \<Rightarrow> \<exists>expiry w2. awaitReply ?bus (logged_caller_env env) eventKind ?corr expiry (caller_responseLimit mc) [] wl1 =
            Some (Ret (r, w2)) \<and>
          (case r of Inr _ \<Rightarrow> (w', log) = w2 | Inl _ \<Rightarrow> \<exists>x. cb_Cancel ?bus eventKind ?corr w2 = Ret (x, (w', log)))"
    by blast
  have log1: "if r1 = None then snd wl1 = map Inl ?frs else \<exists>n < length ?frs. snd wl1 = map Inl (take n ?frs)"
    using send_logged [OF sent assms(2-4)] by (simp only: Let_def)
  have "case r of Inr body \<Rightarrow> log = map Inl ?frs
     | Inl e \<Rightarrow> log = map Inl ?frs @ [Inr (eventKind, ?corr)] \<or> (\<exists>n < length ?frs. log = map Inl (take n ?frs))"
  proof (cases r1)
    case (Some e)
    with rest log1 show ?thesis by auto
  next
    case None
    with rest obtain expiry w2 where await: "awaitReply ?bus (logged_caller_env env) eventKind ?corr expiry
        (caller_responseLimit mc) [] wl1 = Some (Ret (r, w2))"
      and fin: "case r of Inr _ \<Rightarrow> (w', log) = w2 | Inl _ \<Rightarrow> \<exists>x. cb_Cancel ?bus eventKind ?corr w2 = Ret (x, (w', log))"
      by auto
    have "snd w2 = snd wl1"
      by (rule awaitReply_logged [OF await]) (auto simp: logged_caller_env_def)
    then have "snd w2 = map Inl ?frs" using log1 None by simp
    with fin show ?thesis
      by (cases w2) (auto simp: logged_caller_def obind_Ret_iff split: sum.splits)
  qed
  with m' show ?thesis by (simp add: Let_def)
qed

text \<open>
  A bus for the samples: it accepts everything, hands out the events of a script, and then
  nothing more. Time passes one tick at every sleep.
\<close>

definition script_bus :: "(Event list \<times> int) caller_bus" where
  "script_bus = \<lparr>cb_Poll = (\<lambda>(es, t). case es of [] \<Rightarrow> Ret (Inr None, ([], t)) | e # es \<Rightarrow> Ret (Inr (Some e), (es, t))),
     cb_RequestFragment = (\<lambda>_ _ _ _ w. Ret (None, w)), cb_Cancel = (\<lambda>_ _ w. Ret (None, w)),
     cb_moduleInlineBudget = (\<lambda>_. 4096)\<rparr>"

definition script_env :: "(Event list \<times> int) caller_env" where
  "script_env = \<lparr>ce_clock = (\<lambda>_. None), ce_now = snd, ce_ctx_err = (\<lambda>_. False),
     ce_sleep = (\<lambda>(es, t). (es, t + 1))\<rparr>"

definition sample_event :: "u32 \<Rightarrow> u64 \<Rightarrow> bytes \<Rightarrow> bool \<Rightarrow> Event" where
  "sample_event kind correlation payload m =
    \<lparr>EventFrame = sample_frame\<lparr>HdrFlags := FReply OR FInline OR (if m then FMore else 0),
       CorrelationID := correlation, EventKind := kind\<rparr>, Payload = payload\<rparr>"

lemma script_run: "await_run script_bus script_env expiry (es, t) es ([], t)"
proof (induction es)
  case (Cons e es)
  then show ?case by (rule await_run.intros(2) [rotated]) (simp add: script_bus_def)
qed (rule await_run.intros)

lemma script_cancel:
  "cb_Cancel (logged_caller script_bus) kind correlation (w, log) = Ret (None, (w, log @ [Inr (kind, correlation)]))"
  by (simp add: logged_caller_def script_bus_def obind_def)

lemma script_send:
  assumes "length request \<le> 4056" and "stageID \<noteq> 0"
  shows "send (logged_caller script_bus) kind stageID traceID correlation deadlineNS request (w, []) =
   Some (Ret (None, (w, [Inl (kind, correlation,
     message_bytes (invoke_message stageID traceID deadlineNS (length request)) @ request, False)])))"
proof -
  let ?m = "invoke_message stageID traceID deadlineNS"
  have "valid_message (?m (length request))"
    using assms by (simp add: invoke_message_valid word_le_nat_alt unat_of_nat)
  then have enc: "EncodeMessage (?m (length request)) (replicate 4096 0) =
      (Inr 40, message_bytes (?m (length request)) @ replicate 4056 0)"
    by (simp add: EncodeMessage_layout)
  have "send_chunks (logged_caller script_bus) 4056 kind correlation ?m request (replicate 4096 0) 0 (w, []) =
      Some (Ret (None, (w, [Inl (kind, correlation, message_bytes (?m (length request)) @ request, False)])))"
    using assms(1) by (subst send_chunks.simps)
      (simp add: Let_def min_absorb1 enc sub_def blit_def logged_caller_def script_bus_def)
  then show ?thesis by (simp add: send_def Let_def) (simp add: logged_caller_def script_bus_def)
qed

theorem Call_sends_and_cancels_witness:
  "\<exists>w' log. Call (logged_caller script_bus) (logged_caller_env script_env) (Some newModuleCaller) 8961 1 9 0 [1, 2, 3]
      (([sample_event KindCapabilityAbsent 1 [] False], 0), []) =
        Some (Ret (Inl ErrModuleCallCapabilityAbsent, Some (newModuleCaller\<lparr>caller_correlation := 1\<rparr>), (w', log))) \<and>
    last log = Inr (8961, 1)"
proof -
  let ?w = "([sample_event KindCapabilityAbsent 1 [] False], 0)"
  let ?log = "[Inl (8961, 1, message_bytes (invoke_message 1 9 0 3) @ [1, 2, 3], False)]"
  have "awaitReply (logged_caller script_bus) (logged_caller_env script_env) 8961 1 None ModuleMessageMaxBody [] (?w, ?log) =
      Some (Ret (Inl ErrModuleCallCapabilityAbsent, (([], 0), ?log)))"
    by (subst awaitReply.simps)
      (simp add: logged_caller_def script_bus_def obind_def await_event_def sample_event_def Let_def)
  then have run: "Call (logged_caller script_bus) (logged_caller_env script_env) (Some newModuleCaller) 8961 1 9 0 [1, 2, 3]
      (?w, []) = Some (Ret (Inl ErrModuleCallCapabilityAbsent, Some (newModuleCaller\<lparr>caller_correlation := 1\<rparr>),
        (([], 0), ?log @ [Inr (8961, 1)])))"
    using script_send [of "[1, 2, 3]" 1 8961 9 1 0 ?w]
    by (simp add: Call_def newModuleCaller_def Let_def script_cancel numeral_3_eq_3)
  have "cb_moduleInlineBudget script_bus ?w = 4096" by (simp add: script_bus_def)
  with Call_sends_and_cancels [OF run] have "?log @ [Inr (8961, 1)] \<noteq> []" by simp
  with run show ?thesis by fastforce
qed

lemma awaitReply_delivered:
  assumes "replyModuleResult (logged_bus bus) (logged_env env) kind correlation stageID traceID status body
      (w, []) = Some (Ret (None, (w', log)))"
    and "stageID \<noteq> 0" and "kind \<noteq> KindCapabilityAbsent" and "kind \<noteq> KindError"
    and "delivered correlation log es" and "await_run cbus cenv expiry v es v'"
  shows "\<exists>v''. awaitReply cbus cenv kind correlation expiry ModuleMessageMaxBody [] v =
    Some (Ret (case check_result body status of (body, status) \<Rightarrow>
      if status = ModuleStatusOK then Inr body else Inl (ModuleCallStatusError status), v''))"
proof -
  obtain body' status' where c: "check_result body status = (body', status')" by (metis surj_pair)
  have "carries kind correlation stageID traceID (bus_moduleInlineBudget bus w) status' body' log"
    using reply_carries [OF assms(1,2)] c by (simp split: if_splits)
  then have "await_events kind correlation ModuleMessageMaxBody [] es =
      (if status' = ModuleStatusOK then AwaitDone ([] @ body') else AwaitFail (ModuleCallStatusError status'))"
    using await_fragments [OF assms(3,4), where frs = log and es = es and body = "[]" and limit = ModuleMessageMaxBody]
      check_result_valid [OF c] assms(5)
    by (auto simp: carries_def)
  with awaitReply_run [OF assms(6), of kind correlation ModuleMessageMaxBody "[]"] c
  show ?thesis by (auto split: if_splits)
qed

text \<open>
  C35. What a module replies is what its caller gets: if a reply went out completely on one bus
  and its fragments are delivered on the other, in order, among any events of other correlation
  ids and with any empty polls in between, the waiting call returns the body that was replied
  (checked as the runtime checks it), or the module's own status when that is not OK.
\<close>

theorem reply_reaches_caller:
  assumes "replyModuleResult (logged_bus bus) (logged_env env) kind correlation stageID traceID status body
      (w, []) = Some (Ret (None, (w', log)))"
    and "stageID \<noteq> 0" and "kind \<noteq> KindCapabilityAbsent" and "kind \<noteq> KindError"
    and "delivered correlation log es" and "await_run cbus cenv expiry v es v'"
  shows "\<exists>v''. awaitReply cbus cenv kind correlation expiry ModuleMessageMaxBody [] v =
    Some (Ret (case check_result body status of (body, status) \<Rightarrow>
      if status = ModuleStatusOK then Inr body else Inl (ModuleCallStatusError status), v''))"
  by (rule awaitReply_delivered [OF assms])

theorem reply_reaches_caller_witness:
  "\<exists>log v. (\<exists>w'. replyModuleResult (logged_bus client_bus) (logged_env idle_env) 256 7 3 9 0 [1, 2, 3]
      (sample_client, []) = Some (Ret (None, (w', log)))) \<and>
    awaitReply script_bus script_env 256 7 None ModuleMessageMaxBody []
      (sample_event KindError 8 [] False # map (\<lambda>(k, c, p, m). sample_event k c p m) log, 0) = Some (Ret (Inr [1, 2, 3], v))"
proof -
  let ?log = "[(256, 7, message_bytes (reply_message 3 9 0 3) @ [1, 2, 3], False)]"
  let ?es = "sample_event KindError 8 [] False # map (\<lambda>(k, c, p, m). sample_event k c p m) ?log"
  obtain w' where run: "replyModuleResult (logged_bus client_bus) (logged_env idle_env) 256 7 3 9 0 [1, 2, 3]
      (sample_client, []) = Some (Ret (None, (w', ?log)))"
    using sample_reply_run by blast
  have "delivered 7 ?log ?es"
    by (simp add: delivered_def fragment_event_def sample_event_def)
  moreover have "(256 :: u32) \<noteq> KindCapabilityAbsent" "(256 :: u32) \<noteq> KindError"
    by (simp_all add: KindCapabilityAbsent_def KindError_def)
  ultimately have "\<exists>v. awaitReply script_bus script_env 256 7 None ModuleMessageMaxBody [] (?es, 0) =
      Some (Ret (case check_result [1, 2, 3] 0 of (body, status) \<Rightarrow>
        if status = ModuleStatusOK then Inr body else Inl (ModuleCallStatusError status), v))"
    by (intro reply_reaches_caller [OF run _ _ _ _ script_run]) simp_all
  then
  obtain v where v: "awaitReply script_bus script_env 256 7 None ModuleMessageMaxBody [] (?es, 0) =
      Some (Ret (Inr [1, 2, 3], v))"
    by (auto simp: check_result_def validModuleStatus_def)
  show ?thesis
    by (rule exI [of _ ?log], rule exI [of _ v], rule conjI, rule exI, rule run, rule v)
qed

end
