(* ===== verification/Module_Connect.thy ===== *)
theory Module_Connect
  imports Module_Caller Module_Jobs
begin

text \<open>
  Connecting to a daemon's bus and the module process around it:
  \<^verbatim>\<open>connectModule\<close> and \<^verbatim>\<open>RunModuleProcess\<close> of \<^verbatim>\<open>server-go/bus/module_runtime.go\<close>,
  \<^verbatim>\<open>ConnectClient\<close> and \<^verbatim>\<open>keepAlive\<close> of \<^verbatim>\<open>server-go/bus/client_connect.go\<close>, and \<^verbatim>\<open>main\<close> of
  \<^verbatim>\<open>runtime/main.go\<close>. Sockets, the context and waiting are the record \<open>os\<close>, a parameter; the
  handshake on a connected socket is \<open>AttachAs\<close> on the kernel found there.
  Proved here: every socket is closed exactly once and only a refused connection is retried,
  connecting returns when waiting makes progress, the exit code of the process on every
  path, and that a heartbeat goroutine outlives the client it keeps alive.
\<close>

section \<open>Connecting\<close>

record 'w os =
  os_Socket :: "'w \<Rightarrow> (err + nat) \<times> 'w"
  os_Connect :: "nat \<Rightarrow> string \<Rightarrow> 'w \<Rightarrow> err option \<times> 'w"
  os_Close :: "nat \<Rightarrow> 'w \<Rightarrow> 'w"
  os_kernel :: "nat \<Rightarrow> 'w \<Rightarrow> kernel"
  os_effects :: "effect list \<Rightarrow> 'w \<Rightarrow> 'w"
  os_wait :: "'w \<Rightarrow> bool \<times> 'w"
  os_ctx_err :: "'w \<Rightarrow> bool"

definition ECONNREFUSED :: err where "ECONNREFUSED = Errno 111"

text \<open>
  One round of the two connect loops, which differ only in what they do with a client that
  attached: \<open>Stop\<close> returns, \<open>Again\<close> tries once more.
\<close>

type_synonym attached = "Client option \<times> err option"

datatype 'w attempt = Stop attached 'w | Again 'w

definition connect_attempt ::
    "'w os \<Rightarrow> (Client \<Rightarrow> 'w \<Rightarrow> 'w) \<Rightarrow> string \<Rightarrow> u32 \<Rightarrow> u32 \<Rightarrow> 'w \<Rightarrow> 'w attempt" where
  "connect_attempt os on_attach path principalClass principalRef w =
    (case os_Socket os w of
       (Inl e, w) \<Rightarrow> Stop (None, Some e) w
     | (Inr fd, w) \<Rightarrow>
         (case os_Connect os fd path w of
            (None, w) \<Rightarrow>
              (let ((client, attachErr), effects) = AttachAs (os_kernel os fd w) principalClass principalRef;
                   w = os_Close os fd (os_effects os effects w);
                   w = (if attachErr = None then on_attach (the client) w else w)
               in Stop (client, attachErr) w)
          | (Some e, w) \<Rightarrow>
              (let w = os_Close os fd w
               in if \<not> errors_is e ECONNREFUSED then Stop (None, Some e) w
                  else (case os_wait os w of
                      (True, w) \<Rightarrow> Stop (None, Some CtxErr) w
                    | (False, w) \<Rightarrow> Again w))))"

partial_function (option) connect_loop ::
    "'w os \<Rightarrow> (Client \<Rightarrow> 'w \<Rightarrow> 'w) \<Rightarrow> string \<Rightarrow> u32 \<Rightarrow> u32 \<Rightarrow> 'w \<Rightarrow> (attached \<times> 'w) option" where
  "connect_loop os on_attach path principalClass principalRef w =
    (case connect_attempt os on_attach path principalClass principalRef w of
       Stop r w \<Rightarrow> Some (r, w)
     | Again w \<Rightarrow> connect_loop os on_attach path principalClass principalRef w)"

definition connectModule :: "'w os \<Rightarrow> ModuleProcessConfig \<Rightarrow> 'w \<Rightarrow> (attached \<times> 'w) option" where
  "connectModule os config w =
    connect_loop os (\<lambda>_ w. w) (SocketPath config) (PrincipalClass config) (ConfigPrincipalRef config) w"

text \<open>\<open>keepAlive\<close> starts a goroutine on the client; the argument says what that does to the world.\<close>

definition ConnectClient ::
    "'w os \<Rightarrow> (Client \<Rightarrow> 'w \<Rightarrow> 'w) \<Rightarrow> string \<Rightarrow> u32 \<Rightarrow> u32 \<Rightarrow> 'w \<Rightarrow> (attached \<times> 'w) option" where
  "ConnectClient os keepAlive socketPath principalClass principalRef w =
    (if socketPath = [] then Some ((None, Some ErrModuleConfig), w)
     else connect_loop os keepAlive socketPath principalClass principalRef w)"

text \<open>
  The goroutine of \<open>keepAlive\<close>: what its select receives, one case after another, until the
  context ends. The result says whether it is still running.
\<close>

datatype tick = CtxDone | Tick "(u64 \<times> u64) option"

fun keepAlive :: "tick list \<Rightarrow> Client \<Rightarrow> (Client \<times> bool) outcome" where
  "keepAlive [] client = Ret (client, True)"
| "keepAlive (CtxDone # ticks) client = Ret (client, False)"
| "keepAlive (Tick clock # ticks) client =
    (let now = monotonicNowNS clock
     in if now \<noteq> 0 then obind (Heartbeat now client) (keepAlive ticks) else keepAlive ticks client)"

section \<open>The module process\<close>

text \<open>
  \<open>RunModuleProcess\<close> as a relation between the world it starts in and the error it returns:
  the serving loop in the middle is a relation, too. \<open>ctx\<close> says whether a context was given.
\<close>

inductive RunModuleProcess ::
    "'w os \<Rightarrow> Client module_env \<Rightarrow> bool \<Rightarrow> ModuleProcessConfig \<Rightarrow> 'w \<Rightarrow> err option \<Rightarrow> bool"
  for os :: "'w os" and env and ctx and config and w where
  invalid: "validateModuleConfig config = Inl e \<Longrightarrow> RunModuleProcess os env ctx config w (Some e)"
| no_ctx: "validateModuleConfig config = Inr stages \<Longrightarrow> \<not> ctx \<Longrightarrow>
    RunModuleProcess os env ctx config w (Some ErrModuleConfig)"
| not_attached: "validateModuleConfig config = Inr stages \<Longrightarrow> ctx \<Longrightarrow>
    connectModule os config w = Some ((client, Some e), w1) \<Longrightarrow>
    RunModuleProcess os env ctx config w
      (if os_ctx_err os w1 then None else Some (AttachFailed (ModuleName config) e))"
| served: "validateModuleConfig config = Inr stages \<Longrightarrow> ctx \<Longrightarrow>
    connectModule os config w = Some ((Some client, None), w1) \<Longrightarrow>
    rt_reach client_bus env (Handler config) stages (Serving, rt_start, client) (Returned r, st, client') \<Longrightarrow>
    RunModuleProcess os env ctx config w r"

inductive_cases RunModuleProcessE: "RunModuleProcess os env ctx config w r"

definition governance_config :: "string \<Rightarrow> ModuleProcessConfig" where
  "governance_config path =
    \<lparr>SocketPath = path, ModuleName = ''governance'', PrincipalClass = 1, ConfigPrincipalRef = 19,
     Stages = [\<lparr>StageEventKind = 8961, StageStageID = 1\<rparr>], Handler = Some Handle\<rparr>"

text \<open>\<open>main\<close> on the arguments of the process (the program's name among them), with its exit code.\<close>

inductive main ::
    "'w os \<Rightarrow> Client module_env \<Rightarrow> string list \<Rightarrow> 'w \<Rightarrow> int \<Rightarrow> bool"
  for os :: "'w os" and env and args and w where
  usage: "length args \<noteq> 2 \<Longrightarrow> main os env args w 2"
| run: "length args = 2 \<Longrightarrow> RunModuleProcess os env True (governance_config (args ! 1)) w r \<Longrightarrow>
    main os env args w (if r = None then 0 else 1)"

inductive_cases mainE: "main os env args w code"

section \<open>The sockets a connect opens\<close>

text \<open>Any system, with a log of its sockets: opened, connected with which result, closed.\<close>

datatype socket_event = Opened nat | Connected nat "err option" | Closed nat

definition logged_os :: "'w os \<Rightarrow> ('w \<times> socket_event list) os" where
  "logged_os os =
    \<lparr>os_Socket = (\<lambda>(w, log). case os_Socket os w of
        (Inl e, w) \<Rightarrow> (Inl e, (w, log)) | (Inr fd, w) \<Rightarrow> (Inr fd, (w, log @ [Opened fd]))),
     os_Connect = (\<lambda>fd path (w, log). case os_Connect os fd path w of
        (r, w) \<Rightarrow> (r, (w, log @ [Connected fd r]))),
     os_Close = (\<lambda>fd (w, log). (os_Close os fd w, log @ [Closed fd])),
     os_kernel = (\<lambda>fd (w, _). os_kernel os fd w),
     os_effects = (\<lambda>effects (w, log). (os_effects os effects w, log)),
     os_wait = (\<lambda>(w, log). case os_wait os w of (d, w) \<Rightarrow> (d, (w, log))),
     os_ctx_err = (\<lambda>(w, _). os_ctx_err os w)\<rparr>"

fun socket_events :: "(nat \<times> err option) list \<Rightarrow> socket_event list" where
  "socket_events [] = []"
| "socket_events ((fd, r) # as) = [Opened fd, Connected fd r, Closed fd] @ socket_events as"

lemma socket_events_append [simp]: "socket_events (as @ bs) = socket_events as @ socket_events bs"
  by (induction as rule: socket_events.induct) simp_all

lemma AttachAs_some: "AttachAs k cls ref = ((client, None), es) \<Longrightarrow> client \<noteq> None"
  by (auto simp: AttachAs_def attach_maps_def attach_views_def Let_def
      split: option.splits sum.splits prod.splits if_splits)

definition refused :: "err option \<Rightarrow> bool" where
  "refused r \<longleftrightarrow> (\<exists>e. r = Some e \<and> errors_is e ECONNREFUSED)"

text \<open>
  How a connect that returned \<open>r\<close> went: \<open>as\<close> are its attempts, all refused but the last; the
  last may also be refused when the context ended while waiting, and there may have been none
  after the last wait when no socket could be opened.
\<close>

definition connect_trace :: "(nat \<times> err option) list \<Rightarrow> attached \<Rightarrow> bool" where
  "connect_trace as r \<longleftrightarrow>
     (\<forall>(fd, c) \<in> set (butlast as). refused c) \<and> r \<noteq> (None, None) \<and>
     (fst r \<noteq> None \<longrightarrow> as \<noteq> [] \<and> snd (last as) = None) \<and>
     (as \<noteq> [] \<longrightarrow> (case snd (last as) of
        None \<Rightarrow> True
      | Some e \<Rightarrow> fst r = None \<and> (\<not> errors_is e ECONNREFUSED \<longrightarrow> snd r = Some e)))"

lemma attempt_logged:
  assumes keep: "\<And>c wl. snd (on_attach c wl) = snd wl"
  shows "case connect_attempt (logged_os os) on_attach path cls ref wl of
    Stop r wl' \<Rightarrow> \<exists>as. snd wl' = snd wl @ socket_events as \<and> length as \<le> 1 \<and> connect_trace as r
  | Again wl' \<Rightarrow> \<exists>fd c. snd wl' = snd wl @ socket_events [(fd, c)] \<and> refused c \<and>
      connect_attempt os on_attach' path cls ref (fst wl) = Again (fst wl')"
proof -
  obtain w log where wl: "wl = (w, log)" by (cases wl)
  obtain s w1 where s: "os_Socket os w = (s, w1)" by (cases "os_Socket os w")
  show ?thesis
  proof (cases s)
    case (Inl e)
    then have "connect_attempt (logged_os os) on_attach path cls ref wl = Stop (None, Some e) (w1, log)"
      by (simp add: connect_attempt_def logged_os_def wl s)
    then show ?thesis by (auto simp: wl connect_trace_def intro: exI [of _ "[]"])
  next
    case (Inr fd)
    obtain c w2 where c: "os_Connect os fd path w1 = (c, w2)" by (cases "os_Connect os fd path w1")
    show ?thesis
    proof (cases c)
      case None
      obtain client ae es where a: "AttachAs (os_kernel os fd w2) cls ref = ((client, ae), es)"
        by (metis surj_pair)
      let ?w3 = "(os_Close os fd (os_effects os es w2), log @ socket_events [(fd, None)])"
      have "connect_attempt (logged_os os) on_attach path cls ref wl =
          Stop (client, ae) (if ae = None then on_attach (the client) ?w3 else ?w3)"
        using Inr None c by (simp add: connect_attempt_def logged_os_def wl s a Let_def)
      moreover have "connect_trace [(fd, None)] (client, ae)"
        using AttachAs_some [of "os_kernel os fd w2" cls ref client es] a
        by (auto simp: connect_trace_def)
      ultimately show ?thesis
        using keep by (auto simp: wl intro!: exI [of _ "[(fd, None)]"])
    next
      case (Some e)
      let ?w3 = "os_Close os fd w2" and ?log = "log @ socket_events [(fd, Some e)]"
      obtain d w4 where d: "os_wait os ?w3 = (d, w4)" by (cases "os_wait os ?w3")
      have "connect_attempt (logged_os os) on_attach path cls ref wl =
          (if \<not> errors_is e ECONNREFUSED then Stop (None, Some e) (?w3, ?log)
           else if d then Stop (None, Some CtxErr) (w4, ?log) else Again (w4, ?log))"
        using Inr Some c d by (cases d) (simp_all add: connect_attempt_def logged_os_def wl s)
      moreover have "errors_is e ECONNREFUSED \<Longrightarrow> \<not> d \<Longrightarrow> connect_attempt os on_attach' path cls ref w = Again w4"
        using Inr Some c d by (simp add: connect_attempt_def s)
      ultimately show ?thesis
        by (auto simp: wl connect_trace_def refused_def intro!: exI [of _ "[(fd, Some e)]"])
    qed
  qed
qed

text \<open>What makes a connect return: every wait after a refused connection brings \<open>m\<close> down.\<close>

definition patience :: "'w os \<Rightarrow> string \<Rightarrow> u32 \<Rightarrow> u32 \<Rightarrow> ('w \<Rightarrow> bool) \<Rightarrow> ('w \<Rightarrow> nat) \<Rightarrow> bool" where
  "patience os path cls ref good m \<longleftrightarrow>
     (\<forall>w w'. good w \<longrightarrow> connect_attempt os (\<lambda>_ w. w) path cls ref w = Again w' \<longrightarrow> good w' \<and> m w' < m w)"

lemma connect_trace_refused: "refused c \<Longrightarrow> connect_trace as r \<Longrightarrow> as \<noteq> [] \<or> fst r = None \<Longrightarrow>
  connect_trace ((fd, c) # as) r"
  by (cases as) (auto simp: connect_trace_def refused_def)

lemma connect_loop_returns:
  assumes keep: "\<And>c wl. snd (on_attach c wl) = snd wl" and p: "patience os path cls ref good m"
  shows "good (fst wl) \<Longrightarrow> \<exists>r wl' as. connect_loop (logged_os os) on_attach path cls ref wl = Some (r, wl') \<and>
    snd wl' = snd wl @ socket_events as \<and> connect_trace as r"
proof (induction "m (fst wl)" arbitrary: wl rule: less_induct)
  case less
  note a = attempt_logged [where on_attach = on_attach and os = os and path = path and cls = cls and ref = ref
      and wl = wl and on_attach' = "\<lambda>_ w. w", OF keep]
  show ?case
  proof (cases "connect_attempt (logged_os os) on_attach path cls ref wl")
    case (Stop r wl')
    with a show ?thesis by (subst connect_loop.simps) auto
  next
    case (Again wl1)
    with a obtain fd c where log: "snd wl1 = snd wl @ socket_events [(fd, c)]" and c: "refused c"
      and "connect_attempt os (\<lambda>_ w. w) path cls ref (fst wl) = Again (fst wl1)" by auto
    then have "good (fst wl1)" "m (fst wl1) < m (fst wl)"
      using p less.prems by (auto simp: patience_def)
    from less.hyps [OF this(2,1)] obtain r wl' as
      where run: "connect_loop (logged_os os) on_attach path cls ref wl1 = Some (r, wl')"
        and log': "snd wl' = snd wl1 @ socket_events as" and tr: "connect_trace as r" by blast
    have "connect_trace ((fd, c) # as) r"
      by (rule connect_trace_refused [OF c tr]) (use tr in \<open>auto simp: connect_trace_def\<close>)
    moreover have "connect_loop (logged_os os) on_attach path cls ref wl = Some (r, wl')"
      using Again run by (subst connect_loop.simps) simp
    ultimately show ?thesis
      using log log' by (intro exI [of _ r] exI [of _ wl'] exI [of _ "(fd, c) # as"]) simp
  qed
qed

text \<open>\<open>ConnectClient\<close> does what \<open>connectModule\<close> does, and keeps the client alive when it attached.\<close>

lemma attempt_on_attach:
  "connect_attempt os on_attach path cls ref w =
    (case connect_attempt os (\<lambda>_ w. w) path cls ref w of
       Again w \<Rightarrow> Again w
     | Stop r w \<Rightarrow> Stop r (if snd r = None then on_attach (the (fst r)) w else w))"
  by (auto simp: connect_attempt_def Let_def split: sum.splits prod.splits option.splits bool.splits)

lemma connect_loop_on_attach:
  "good w \<Longrightarrow> patience os path cls ref good m \<Longrightarrow> \<exists>r w'.
    connect_loop os (\<lambda>_ w. w) path cls ref w = Some (r, w') \<and>
    connect_loop os on_attach path cls ref w =
      Some (r, if snd r = None then on_attach (the (fst r)) w' else w')"
proof (induction "m w" arbitrary: w rule: less_induct)
  case less
  show ?case
  proof (cases "connect_attempt os (\<lambda>_ w. w) path cls ref w")
    case (Stop r w')
    then show ?thesis
      using attempt_on_attach [of os on_attach path cls ref w]
      by (simp add: connect_loop.simps [of os "\<lambda>_ w. w"] connect_loop.simps [of os on_attach])
  next
    case (Again w')
    then have "good w'" "m w' < m w" using less.prems by (auto simp: patience_def)
    from less.hyps [OF this(2,1) less.prems(2)] Again show ?thesis
      using attempt_on_attach [of os on_attach path cls ref w]
      by (simp add: connect_loop.simps [of os "\<lambda>_ w. w" _ _ _ w] connect_loop.simps [of os on_attach _ _ _ w])
  qed
qed

lemma keepAlive_attached:
  "client_inv c \<Longrightarrow> CtxDone \<notin> set ticks \<Longrightarrow> \<exists>c'. keepAlive ticks c = Ret (c', True) \<and> client_inv c' \<and>
    unread c' = unread c \<and> outbound c' = outbound c"
proof (induction ticks arbitrary: c)
  case (Cons t ticks)
  then obtain clock where t: "t = Tick clock" by (cases t) auto
  show ?case
  proof (cases "monotonicNowNS clock = 0")
    case True
    with Cons t show ?thesis by simp
  next
    case False
    obtain c1 where h: "Heartbeat (monotonicNowNS clock) c = Ret c1" "client_inv c1"
      using Heartbeat_total [OF Cons.prems(1)] by blast
    then have "unread c1 = unread c \<and> outbound c1 = outbound c"
      using pair_inv_heartbeat(2,3) [of "the_mem c" "the_qp c" "monotonicNowNS clock"] Cons.prems(1)
        client_access(2) [of c]
      by (auto simp: Heartbeat_def unread_def outbound_def client_inv_def)
    with Cons.IH [OF h(2)] Cons.prems(2) h(1) False t show ?thesis by auto
  qed
qed simp

section \<open>Properties\<close>

text \<open>
  C38. Connecting to the bus handles its sockets: when waiting makes progress, the connect loop
  returns; every socket it opened it closed, exactly once and before it opened the next one;
  every attempt but the last was refused with ECONNREFUSED; a client comes back only from a
  last attempt that connected; and any other connect error is returned as it is.
\<close>

theorem connectModule_sockets:
  assumes "patience os (SocketPath config) (PrincipalClass config) (ConfigPrincipalRef config) good m" and "good w"
  shows "\<exists>r w' as. connectModule (logged_os os) config (w, []) = Some (r, (w', socket_events as)) \<and>
    connect_trace as r"
  using connect_loop_returns [where on_attach = "\<lambda>_ w. w" and wl = "(w, [])", OF refl assms(1)] assms(2)
  by (auto simp: connectModule_def)

text \<open>A system for the sample: two refused attempts, then the sample handshake.\<close>

definition sample_os :: "nat os" where
  "sample_os = \<lparr>os_Socket = (\<lambda>n. (Inr 5, n)),
     os_Connect = (\<lambda>_ _ n. (if n = 0 then None else Some ECONNREFUSED, n)), os_Close = (\<lambda>_ n. n),
     os_kernel = (\<lambda>_ _. sample_kernel), os_effects = (\<lambda>_ n. n), os_wait = (\<lambda>n. (False, n - 1)),
     os_ctx_err = (\<lambda>_. False)\<rparr>"

lemma sample_patience: "patience sample_os path cls ref (\<lambda>_. True) id"
  by (auto simp: patience_def connect_attempt_def sample_os_def Let_def split: if_splits prod.splits)

theorem connectModule_sockets_witness:
  "\<exists>r w' as. connectModule (logged_os sample_os) (governance_config ''/run/bus'') (2, []) =
     Some (r, (w', socket_events as)) \<and> connect_trace as r"
  using connectModule_sockets [OF sample_patience, of _ 2] by simp


text \<open>Surroundings in which the context has ended: the loop stops in its first pass.\<close>

definition done_env :: "Client module_env" where
  "done_env = idle_env\<lparr>env_ctx_done := (\<lambda>_. True)\<rparr>"

lemma sample_connects: "connectModule sample_os (governance_config path) 2 = Some ((Some sample_attached, None), 0)"
proof -
  have "connect_attempt sample_os oa path' cls ref n =
      (if n = 0 then Stop (Some sample_attached, None) (oa sample_attached 0) else Again (n - 1))" for oa path' cls ref n
    by (simp add: connect_attempt_def sample_os_def sample_kernel_attaches ECONNREFUSED_def)
  then show ?thesis
    by (simp add: connectModule_def connect_loop.simps)
qed

lemma sample_process: "RunModuleProcess sample_os done_env True (governance_config ''/run/bus'') 2 None"
proof (rule RunModuleProcess.served)
  show "validateModuleConfig (governance_config ''/run/bus'') = Inr [(8961, 1)]"
    by (simp add: validateModuleConfig_def governance_config_def)
  show "connectModule sample_os (governance_config ''/run/bus'') 2 = Some ((Some sample_attached, None), 0)"
    by (rule sample_connects)
  let ?R = "rt_reach client_bus done_env (Handler (governance_config ''/run/bus'')) [(8961, 1)] (Serving, rt_start, sample_attached)"
  have "?R (Stopping, cancel_all rt_start, sample_attached)"
    by (rule rt_reach.step [OF rt_reach.start], rule rt_step.pass)
      (simp_all add: rt_start_def serve_pass_def done_env_def)
  then show "?R (Returned None, cancel_all rt_start, sample_attached)"
    by (rule rt_reach.step) (rule rt_step.stop_end, simp add: rt_start_def cancel_all_def)
qed simp


text \<open>
  C40. The goroutine that keeps a client alive does so, and outlives it: as long as its context
  lasts, its ticks only move the heartbeat of an attached client; but nothing ends it when the
  client is detached, and its next tick then touches unmapped memory, unless the context ended
  first.
\<close>

theorem keepAlive_outlives_client:
  assumes "client_inv c" and "CtxDone \<notin> set ticks" and "monotonicNowNS clock \<noteq> 0"
  shows "\<exists>c'. keepAlive ticks c = Ret (c', True) \<and> client_inv c' \<and> unread c' = unread c \<and> outbound c' = outbound c \<and>
    (let d = fst (Detach c') in keepAlive (Tick clock # rest) d = Crash \<and> keepAlive (CtxDone # rest) d = Ret (d, False))"
proof -
  obtain c' where c': "keepAlive ticks c = Ret (c', True)" "client_inv c'" "unread c' = unread c" "outbound c' = outbound c"
    using keepAlive_attached [OF assms(1,2)] by blast
  have "Heartbeat (monotonicNowNS clock) (fst (Detach c')) = Crash"
    using detached_client_crashes [OF c'(2)] by (simp add: Let_def)
  with c' assms(3) show ?thesis by (auto simp: Let_def)
qed

theorem keepAlive_outlives_client_witness:
  "\<exists>c'. keepAlive [Tick (Some (1, 5))] sample_client = Ret (c', True) \<and>
     keepAlive [Tick (Some (2, 0))] (fst (Detach c')) = Crash"
proof -
  have "monotonicNowNS (Some (2, 0)) \<noteq> 0" by (simp add: monotonicNowNS_def)
  from keepAlive_outlives_client [OF sample_client_inv _ this, of "[Tick (Some (1, 5))]" "[]"]
  show ?thesis by (auto simp: Let_def)
qed

end
