(* ===== verification/Module_Detail.thy ===== *)
theory Module_Detail
  imports Prelude
begin

text \<open>
  The reason a failing handler gives for its status, as the runtime logs it:
  \<^verbatim>\<open>moduleDetail\<close> of \<^verbatim>\<open>server-go/bus/module_runtime.go\<close>, with \<^verbatim>\<open>strings.ToValidUTF8\<close> of the
  standard library for an empty replacement. Proved here: whatever bytes a handler returns,
  the text is valid UTF-8 and at most 303 bytes long, and valid short text is kept as it is.
\<close>

section \<open>UTF-8\<close>

definition in_range :: "byte \<Rightarrow> byte \<Rightarrow> byte \<Rightarrow> bool" where
  "in_range lo hi b \<longleftrightarrow> lo \<le> b \<and> b \<le> hi"

text \<open>
  The number of bytes of the character a byte string starts with, zero when it is invalid: the
  first byte gives the length, the second has a range of its own, the others continue.
\<close>

definition utf8_lead :: "byte \<Rightarrow> nat" where
  "utf8_lead a = (if a < 0x80 then 1 else if in_range 0xC2 0xDF a then 2
     else if in_range 0xE0 0xEF a then 3 else if in_range 0xF0 0xF4 a then 4 else 0)"

definition utf8_second :: "byte \<Rightarrow> byte \<Rightarrow> bool" where
  "utf8_second a b \<longleftrightarrow> in_range (if a = 0xE0 then 0xA0 else if a = 0xF0 then 0x90 else 0x80)
     (if a = 0xED then 0x9F else if a = 0xF4 then 0x8F else 0xBF) b"

fun utf8_width :: "bytes \<Rightarrow> nat" where
  "utf8_width [] = 0"
| "utf8_width (a # s) =
    (let n = utf8_lead a
     in if n \<le> 1 then n
        else if length s < n - 1 then 0
        else if utf8_second a (hd s) \<and> list_all (in_range 0x80 0xBF) (tl (take (n - 1) s)) then n else 0)"

lemma utf8_width_length: "utf8_width s \<le> length s"
  by (cases s) (auto simp: Let_def)

lemma utf8_width_append: "0 < utf8_width s \<Longrightarrow> utf8_width (s @ t) = utf8_width s"
  by (cases s) (auto simp: Let_def hd_append split: if_splits)

lemma utf8_width_take: "utf8_width (take (utf8_width s) s) = utf8_width s"
proof (cases s)
  case (Cons a r)
  show ?thesis
  proof (cases "utf8_lead a \<le> 1 \<or> utf8_width s = 0")
    case True
    then show ?thesis by (cases "utf8_lead a") (auto simp: Cons Let_def)
  next
    case False
    then have w: "utf8_width s = utf8_lead a" and len: "utf8_lead a - 1 \<le> length r"
      and ok: "utf8_second a (hd r) \<and> list_all (in_range 0x80 0xBF) (tl (take (utf8_lead a - 1) r))"
      by (auto simp: Cons Let_def split: if_splits)
    have "1 < utf8_lead a" using False by simp
    then have "take (utf8_width s) s = a # take (utf8_lead a - 1) r"
      unfolding w by (simp add: Cons take_Cons')
    moreover have "hd (take (utf8_lead a - 1) r) = hd r" using False by (simp add: hd_take)
    ultimately show ?thesis using w len ok by (simp add: Let_def)
  qed
qed simp

function ToValidUTF8 :: "bytes \<Rightarrow> bytes" where
  "ToValidUTF8 s =
    (if s = [] then []
     else let n = utf8_width s in
       if n = 0 then ToValidUTF8 (tl s) else take n s @ ToValidUTF8 (drop n s))"
  by auto
termination
  by (relation "measure length") auto

declare ToValidUTF8.simps [simp del]

text \<open>A string is valid when it falls into characters.\<close>

inductive valid_utf8 :: "bytes \<Rightarrow> bool" where
  empty: "valid_utf8 []"
| char: "length c = utf8_width c \<Longrightarrow> c \<noteq> [] \<Longrightarrow> valid_utf8 s \<Longrightarrow> valid_utf8 (c @ s)"

lemma ToValidUTF8_valid: "valid_utf8 (ToValidUTF8 s)"
proof (induction s rule: ToValidUTF8.induct)
  case (1 s)
  show ?case
  proof (cases "s = [] \<or> utf8_width s = 0")
    case True
    then show ?thesis
      using 1(1) by (subst ToValidUTF8.simps) (auto intro: valid_utf8.empty)
  next
    case False
    then have "valid_utf8 (take (utf8_width s) s @ ToValidUTF8 (drop (utf8_width s) s))"
      using 1(2) utf8_width_length [of s] by (intro valid_utf8.char) (auto simp: utf8_width_take)
    with False show ?thesis by (subst ToValidUTF8.simps) (simp add: Let_def)
  qed
qed

lemma ToValidUTF8_length: "length (ToValidUTF8 s) \<le> length s"
proof (induction s rule: ToValidUTF8.induct)
  case (1 s)
  then show ?case
    using utf8_width_length [of s] by (subst ToValidUTF8.simps) (auto simp: Let_def le_diff_conv2 min_def)
qed

lemma ToValidUTF8_id: "valid_utf8 s \<Longrightarrow> ToValidUTF8 s = s"
proof (induction rule: valid_utf8.induct)
  case empty
  show ?case by (simp add: ToValidUTF8.simps)
next
  case (char c s)
  have "0 < utf8_width c" using char(1,2) by (simp flip: char(1))
  moreover from this have "utf8_width (c @ s) = length c" using utf8_width_append [of c s] char(1) by simp
  ultimately show ?case using char by (subst ToValidUTF8.simps) (simp add: Let_def)
qed

section \<open>The detail\<close>

definition moduleDetail :: "bytes \<Rightarrow> bytes" where
  "moduleDetail response =
    (if length response = 0 then ascii ''no detail''
     else if length response > 300 then ToValidUTF8 (take 300 response) @ ascii ''...''
     else ToValidUTF8 response)"

lemma valid_utf8_append: "valid_utf8 s \<Longrightarrow> valid_utf8 t \<Longrightarrow> valid_utf8 (s @ t)"
  by (induction rule: valid_utf8.induct) (auto intro: valid_utf8.char)

lemma valid_utf8_ascii: "list_all (\<lambda>b. b < 0x80) s \<Longrightarrow> valid_utf8 s"
proof (induction s)
  case (Cons b s)
  then show ?case using valid_utf8.char [of "[b]" s] by (simp add: Let_def utf8_lead_def)
qed (rule valid_utf8.empty)

lemma moduleDetail_printable:
  "valid_utf8 (moduleDetail response) \<and> length (moduleDetail response) \<le> 303 \<and>
   (valid_utf8 response \<and> response \<noteq> [] \<and> length response \<le> 300 \<longrightarrow> moduleDetail response = response)"
proof -
  have "valid_utf8 (ascii ''no detail'')" "valid_utf8 (ascii ''...'')"
    by (rule valid_utf8_ascii, simp add: ascii_def)+
  moreover have "length (ToValidUTF8 (take 300 response)) \<le> 300"
    using ToValidUTF8_length [of "take 300 response"] by simp
  ultimately show ?thesis
    using ToValidUTF8_valid ToValidUTF8_length [of response] ToValidUTF8_id [of response]
    by (auto simp: moduleDetail_def ascii_def intro: valid_utf8_append)
qed

end
