(* ===== verification/Governance_Wire_C.thy ===== *)
theory Governance_Wire_C
  imports Governance
begin

text \<open>
  The daemon's and the adapter's half of the governance wire contract, in C:
  \<^verbatim>\<open>src/modules/governance/include/aimee/governance/module_api.h\<close>. Proved here: the C request
  encoder writes exactly the request the Go stage decodes, the C request decoder agrees with
  the Go one, and the C response decoder reads every response the Go policy gives and accepts
  nothing but the encoding of a consistent decision.
\<close>

section \<open>The codec\<close>

record decision =
  keep_mask :: u32
  drop_count :: u32
  decision_stop_reason :: bytes

definition zero_padding :: "bytes \<Rightarrow> bool" where
  "zero_padding p \<longleftrightarrow> list_all (\<lambda>b. b = 0) p"

definition nonzero_text :: "bytes \<Rightarrow> bool" where
  "nonzero_text p \<longleftrightarrow> list_all (\<lambda>b. b \<noteq> 0) p"

definition mask_for_count :: "u32 \<Rightarrow> u32" where
  "mask_for_count call_count = (if call_count = 0 then 0 else push_bit (unat call_count) 1 - 1)"

function popcount_loop :: "u32 \<Rightarrow> u32 \<Rightarrow> u32" where
  "popcount_loop v count =
    (if v = 0 then count else popcount_loop (drop_bit 1 v) (count + (v AND 1)))"
  by auto
termination
proof (relation "measure (\<lambda>(v, count). unat v)")
  fix v count :: u32
  assume "v \<noteq> 0"
  then have "0 < unat v" by (simp add: unat_gt_0)
  then show "((drop_bit 1 v, count + (v AND 1)), v, count) \<in> measure (\<lambda>(v, count). unat v)"
    by (simp add: drop_bit_eq_div unat_div)
qed simp

declare popcount_loop.simps [simp del]

definition popcount :: "u32 \<Rightarrow> u32" where
  "popcount v = popcount_loop v 0"

text \<open>
  C strings are their bytes before the terminator, and a null pointer is None. The buffer is
  the caller's; on success its first 632 bytes are the request.
\<close>

fun encode_names :: "nat \<Rightarrow> bytes option list \<Rightarrow> bytes \<Rightarrow> bytes option" where
  "encode_names i [] out = Some out"
| "encode_names i (None # names) out = None"
| "encode_names i (Some name # names) out =
    (if length name > toolNameMax then None
     else (let out = put_u32 (requestToolLengthsOff + i * 4) (of_nat (length name)) out;
               out = blit out (requestToolNamesOff + i * toolNameSlot) name
           in encode_names (Suc i) names out))"

definition request_encode :: "int \<Rightarrow> bytes option list \<Rightarrow> bytes option \<Rightarrow> nat \<Rightarrow> bytes option" where
  "request_encode policy_active tool_names stop_reason capacity =
    (let reason = (case stop_reason of None \<Rightarrow> [] | Some r \<Rightarrow> r)
     in if capacity < requestLen \<or> policy_active \<noteq> 0 \<and> policy_active \<noteq> 1 \<or>
           length tool_names > toolCountMax \<or> length reason > stopReasonMax
        then None
        else
          (let out = replicate requestLen 0;
               out = put_u32 0 requestMagic out;
               out = put_u32 4 wireVersion out;
               out = put_u32 8 (of_int policy_active) out;
               out = put_u32 12 (of_nat (length tool_names)) out;
               out = put_u32 16 (of_nat (length reason)) out
           in case encode_names 0 tool_names out of
                None \<Rightarrow> None
              | Some out \<Rightarrow> Some (blit out requestStopReasonOff reason)))"

text \<open>
  The decoder fills the caller's buffers, whose former content does not matter: sixteen
  name buffers and one for the stop reason, of 32 bytes each. A C string is what comes before
  the first zero byte.
\<close>

definition c_string :: "bytes \<Rightarrow> bytes" where
  "c_string buf = takeWhile (\<lambda>b. b \<noteq> 0) buf"

fun decode_rows :: "bytes \<Rightarrow> nat \<Rightarrow> nat list \<Rightarrow> bytes list \<Rightarrow> bytes list option" where
  "decode_rows inp count [] tool_names = Some tool_names"
| "decode_rows inp count (i # is) tool_names =
    (let name_len = unat (get_u32 inp (requestToolLengthsOff + i * 4));
         slot = sub inp (requestToolNamesOff + i * toolNameSlot) toolNameSlot
     in if name_len > toolNameMax \<or> i \<ge> count \<and> name_len \<noteq> 0 \<or>
           \<not> nonzero_text (take name_len slot) \<or>
           \<not> zero_padding (sub slot name_len (toolNameSlot - name_len))
        then None
        else if i < count
        then decode_rows inp count is
               (tool_names[i := (blit (tool_names ! i) 0 (take name_len slot))[name_len := 0]])
        else decode_rows inp count is (tool_names[i := (tool_names ! i)[0 := 0]]))"

definition request_decode ::
    "bytes \<Rightarrow> bytes list \<Rightarrow> bytes \<Rightarrow> (int \<times> bytes list \<times> u32 \<times> bytes) option" where
  "request_decode inp tool_names stop_reason =
    (if length inp \<noteq> requestLen \<or> get_u32 inp 0 \<noteq> requestMagic \<or> get_u32 inp 4 \<noteq> wireVersion \<or>
        get_u32 inp 8 > 1 \<or> get_u32 inp 12 > of_nat toolCountMax \<or>
        get_u32 inp 16 > of_nat stopReasonMax \<or> get_u32 inp 20 \<noteq> 0
     then None
     else
       (let count = get_u32 inp 12
        in case decode_rows inp (unat count) [0..<toolCountMax] tool_names of
             None \<Rightarrow> None
           | Some tool_names \<Rightarrow>
               (let reason_len = unat (get_u32 inp 16);
                    reason = drop requestStopReasonOff inp
                in if \<not> nonzero_text (take reason_len reason) \<or>
                      \<not> zero_padding (sub reason reason_len (toolNameSlot - reason_len))
                   then None
                   else Some (uint (get_u32 inp 8), tool_names, count,
                     (blit stop_reason 0 (take reason_len reason))[reason_len := 0]))))"

text \<open>The response buffer has \<open>capacity\<close> bytes; the result is its first 56.\<close>

definition response_encode :: "u32 \<Rightarrow> u32 \<Rightarrow> bytes option \<Rightarrow> nat \<Rightarrow> bytes option" where
  "response_encode keep drops stop_reason capacity =
    (let reason = (case stop_reason of None \<Rightarrow> [] | Some r \<Rightarrow> r)
     in if capacity < responseLen \<or> length reason > stopReasonMax then None
        else
          (let out = replicate responseLen 0;
               out = put_u32 0 responseMagic out;
               out = put_u32 4 wireVersion out;
               out = put_u32 8 keep out;
               out = put_u32 12 drops out;
               out = put_u32 16 (of_nat (length reason)) out
           in Some (blit out responseStopReasonOff reason)))"

definition response_decode :: "bytes \<Rightarrow> u32 \<Rightarrow> decision option" where
  "response_decode inp call_count =
    (if length inp \<noteq> responseLen \<or> call_count > of_nat toolCountMax \<or>
        get_u32 inp 0 \<noteq> responseMagic \<or> get_u32 inp 4 \<noteq> wireVersion \<or>
        get_u32 inp 16 > of_nat stopReasonMax \<or> get_u32 inp 20 \<noteq> 0
     then None
     else
       (let mask = get_u32 inp 8;
            drops = get_u32 inp 12;
            allowed_mask = mask_for_count call_count;
            reason_len = unat (get_u32 inp 16);
            reason = drop responseStopReasonOff inp
        in if mask AND NOT allowed_mask \<noteq> 0 \<or> drops > call_count \<or>
              popcount mask + drops \<noteq> call_count \<or>
              \<not> nonzero_text (take reason_len reason) \<or>
              \<not> zero_padding (sub reason reason_len (toolNameSlot - reason_len))
           then None
           else Some \<lparr>keep_mask = mask, drop_count = drops,
                      decision_stop_reason = take reason_len reason\<rparr>))"

section \<open>The request on the wire\<close>

abbreviation len_row :: "bytes \<Rightarrow> bytes" where
  "len_row s \<equiv> le32 (of_nat (length s))"

lemma blit_at: "off = length xs \<Longrightarrow> blit (xs @ ys) off src = xs @ blit ys 0 src"
  by (simp add: blit_skip)

lemma blit_slot: "length s \<le> 32 \<Longrightarrow> blit (pad_slot [] @ ys) 0 s = pad_slot s @ ys"
  by (simp add: blit_def pad_slot_def)

lemma length_concat_replicate: "length (concat (replicate n xs)) = n * length xs"
  by (induction n) simp_all

lemma put_row: "put_u32 0 a (le32 0 @ ys) = le32 a @ ys"
  by (simp add: put_head)

lemma encode_names_layout:
  assumes head: "length head = 24" and small: "\<forall>s \<in> set (done @ todo). length s \<le> 31"
    and count: "length done + length todo + k = 16"
  shows "encode_names (length done) (map Some todo)
      (head @ concat (map len_row (done @ replicate (length todo + k) [])) @
       concat (map pad_slot (done @ replicate (length todo + k) [])) @ rest) =
    Some (head @ concat (map len_row (done @ todo @ replicate k [])) @
       concat (map pad_slot (done @ todo @ replicate k [])) @ rest)"
  using small count
proof (induction todo arbitrary: "done")
  case (Cons s todo)
  let ?n = "length todo + k"
  let ?A = "concat (map len_row done)" and ?B = "concat (map len_row (replicate ?n []))"
  let ?C = "concat (map pad_slot done)" and ?D = "concat (map pad_slot (replicate ?n []))"
  have s: "length s \<le> 31" and d: "\<forall>s \<in> set done. length s \<le> 32"
    using Cons.prems(1) by force+
  have A: "length ?A = length done * 4"
    by (subst length_concat_const [where k = 4]; simp)
  have C: "length ?C = length done * 32"
    by (subst length_concat_const [where k = 32]) (use d in simp_all)
  have put: "put_u32 (24 + length done * 4) (of_nat (length s))
      ((head @ ?A) @ len_row [] @ ?B @ ?C @ pad_slot [] @ ?D @ rest) =
      (head @ ?A @ len_row s @ ?B @ ?C) @ pad_slot [] @ ?D @ rest"
    by (subst put_skip) (simp_all add: head A put_row)
  have blit: "blit ((head @ ?A @ len_row s @ ?B @ ?C) @ pad_slot [] @ ?D @ rest) (88 + length done * 32) s =
      (head @ ?A @ len_row s @ ?B @ ?C) @ pad_slot s @ ?D @ rest"
    using Cons.prems(2) s by (subst blit_at) (simp_all add: head A C blit_slot length_concat_replicate)
  have "\<forall>s \<in> set ((done @ [s]) @ todo). length s \<le> 31" "length (done @ [s]) + length todo + k = 16"
    using Cons.prems by simp_all
  from Cons.IH [OF this] s put blit show ?case
    by (simp add: Let_def)
qed simp

lemma request_encode_bytes:
  assumes "policy_ok p" and "requestLen \<le> capacity"
  shows "request_encode (if active p then 1 else 0) (map Some (toolNames p)) (Some (stopReason p)) capacity =
    Some (request_bytes p)"
proof -
  let ?head = "le32 requestMagic @ le32 wireVersion @ le32 (if active p then 1 else 0) @
    le32 (of_nat (length (toolNames p))) @ le32 (of_nat (length (stopReason p))) @ le32 0"
  have n: "length (toolNames p) \<le> 16" "\<forall>s \<in> set ([] @ toolNames p). length s \<le> 31" "length (stopReason p) \<le> 31"
    using assms by (auto simp: policy_ok_def text_ok_def)
  have zeros: "replicate 608 0 = concat (map len_row (replicate 16 [])) @ concat (map pad_slot (replicate 16 [])) @ pad_slot []"
  proof -
    have "concat (map len_row (replicate 16 [])) = replicate 64 0"
      by (simp add: le32_0 eval_nat_numeral)
    moreover have "concat (map pad_slot (replicate n [])) = replicate (n * 32) 0" for n
      by (induction n) (simp_all add: pad_slot_def replicate_add)
    ultimately show ?thesis by (simp add: pad_slot_def flip: replicate_add)
  qed
  have "put_u32 16 e (put_u32 12 d (put_u32 8 c (put_u32 4 b (put_u32 0 a (replicate requestLen 0))))) =
      le32 a @ le32 b @ le32 c @ le32 d @ le32 e @ le32 0 @ replicate 608 0" for a b c d e
    by (simp add: put_skip put_head le32_0) (simp add: eval_nat_numeral)
  then have out: "put_u32 16 e (put_u32 12 d (put_u32 8 c (put_u32 4 b (put_u32 0 a (replicate requestLen 0))))) =
      (le32 a @ le32 b @ le32 c @ le32 d @ le32 e @ le32 0) @ concat (map len_row ([] @ replicate 16 [])) @
      concat (map pad_slot ([] @ replicate 16 [])) @ pad_slot []" for a b c d e
    by (simp only: zeros append_assoc append_Nil)
  have "encode_names (length ([] :: bytes list)) (map Some (toolNames p))
      (?head @ concat (map len_row ([] @ replicate (length (toolNames p) + (16 - length (toolNames p))) [])) @
       concat (map pad_slot ([] @ replicate (length (toolNames p) + (16 - length (toolNames p))) [])) @ pad_slot []) =
    Some (?head @ concat (map len_row ([] @ toolNames p @ replicate (16 - length (toolNames p)) [])) @
       concat (map pad_slot ([] @ toolNames p @ replicate (16 - length (toolNames p)) [])) @ pad_slot [])"
    by (rule encode_names_layout) (use n in simp_all)
  then have names: "encode_names 0 (map Some (toolNames p))
      (?head @ concat (map len_row ([] @ replicate 16 [])) @ concat (map pad_slot ([] @ replicate 16 [])) @ pad_slot []) =
    Some ((?head @ concat (map len_row (rows p)) @ concat (map pad_slot (rows p))) @ pad_slot [] @ [])"
    using n(1) by (simp add: rows_def)
  let ?tables = "?head @ concat (map len_row (rows p)) @ concat (map pad_slot (rows p))"
  have "600 = length ?tables" using length_tables [OF assms(1)] by simp
  then have "blit (?tables @ pad_slot [] @ []) 600 (stopReason p) = ?tables @ blit (pad_slot [] @ []) 0 (stopReason p)"
    by (rule blit_at)
  also have "\<dots> = ?tables @ pad_slot (stopReason p)"
    using n(3) blit_slot [of "stopReason p" "[]"] by simp
  finally have final: "blit (?tables @ pad_slot [] @ []) 600 (stopReason p) = request_bytes p"
    by (simp add: request_bytes_def)
  have flag: "(of_int (if active p then 1 else 0) :: u32) = (if active p then 1 else 0)" by simp
  have ok: "\<not> (capacity < requestLen \<or> (if active p then 1 else 0 :: int) \<noteq> 0 \<and> (if active p then 1 else 0 :: int) \<noteq> 1 \<or>
      length (toolNames p) > toolCountMax \<or> length (stopReason p) > stopReasonMax)"
    using assms(2) n by simp
  show ?thesis
    unfolding request_encode_def Let_def option.case length_map out flag if_not_P [OF ok] names
    using final by simp
qed

section \<open>The response on the wire\<close>

lemma finite_bits: "finite {j. bit (v :: u32) j}"
  by (rule finite_subset [of _ "{..<32}"]) (auto dest: bit_imp_le_length)

lemma popcount_loop_card: "popcount_loop v count = count + of_nat (card {j. bit v j})"
proof (induction v count rule: popcount_loop.induct)
  case (1 v count)
  show ?case
  proof (cases "v = 0")
    case False
    have bits: "{j. bit v j} = (if odd v then {0} else {}) \<union> Suc ` {j. bit (drop_bit 1 v) j}"
    proof (intro set_eqI)
      fix j show "j \<in> {j. bit v j} \<longleftrightarrow> j \<in> (if odd v then {0} else {}) \<union> Suc ` {j. bit (drop_bit 1 v) j}"
        by (cases j) (auto simp: bit_0 bit_drop_bit_eq image_iff)
    qed
    have "card (Suc ` {j. bit (drop_bit 1 v) j}) = card {j. bit (drop_bit 1 v) j}"
      by (simp add: card_image)
    then have "card {j. bit v j} = (if odd v then 1 else 0) + card {j. bit (drop_bit 1 v) j}"
      unfolding bits using finite_bits by (subst card_Un_disjoint) auto
    moreover have "v AND 1 = (if odd v then 1 else 0)" by (simp add: and_one_eq mod_2_eq_odd)
    ultimately show ?thesis
      using 1 [OF False] False by (subst popcount_loop.simps) (auto simp: ac_simps)
  qed (simp add: popcount_loop.simps)
qed

lemma mask_for_count_bit: "n \<le> 16 \<Longrightarrow> bit (mask_for_count (of_nat n)) j \<longleftrightarrow> j < n"
  by (auto simp: mask_for_count_def unat_of_nat bit_keep_all push_bit_eq_mult word_of_nat_eq_0_iff dest: dvd_imp_le)

lemma decided_counts:
  assumes n: "length (toolNames p) \<le> 16" and ev: "evaluate p = (m, d, r)"
  shows "m AND NOT (mask_for_count (of_nat (length (toolNames p)))) = 0"
    and "popcount m + d = of_nat (length (toolNames p))" and "d \<le> of_nat (length (toolNames p))"
proof -
  let ?n = "length (toolNames p)" and ?P = "\<lambda>t. active p \<longrightarrow> \<not> deniedTool t"
  have n32: "?n \<le> 32" using n by simp
  note e = evaluate_eq [OF n32 ev]
  show "m AND NOT (mask_for_count (of_nat ?n)) = 0"
  proof (rule bit_word_eqI)
    fix j
    show "bit (m AND NOT (mask_for_count (of_nat ?n))) j = bit (0 :: u32) j"
      using e(1) [of j] mask_for_count_bit [OF n, of j] by (auto simp: bit_and_iff bit_not_iff)
  qed
  have "{j. bit m j} = {i. i < ?n \<and> ?P (toolNames p ! i)}" using e(1) by auto
  then have "card {j. bit m j} = length (filter ?P (toolNames p))"
    by (simp add: length_filter_conv_card)
  moreover have "length (filter ?P (toolNames p)) + length (denied_calls p) = ?n"
    using sum_length_filter_compl [of deniedTool "toolNames p"] by (auto simp: denied_calls_def)
  moreover have d: "d = of_nat (length (denied_calls p))" by (simp flip: e(2))
  ultimately have "popcount m + d = of_nat ?n"
    unfolding popcount_def popcount_loop_card d by (metis add_0 of_nat_add)
  then show "popcount m + d = of_nat ?n" .
  show "d \<le> of_nat ?n"
    using e(2) n by (simp add: word_le_nat_alt unat_of_nat denied_calls_def le_trans [OF length_filter_le])
qed

lemma c_text_checks:
  "nonzero_text p \<longleftrightarrow> nonzeroText p" "zero_padding p \<longleftrightarrow> zeroPadding p"
  by (auto simp: nonzero_text_def nonzeroText_iff zero_padding_def zeroPadding_iff list_all_iff
      intro: replicate_length_same [symmetric] dest: arg_cong [where f = set])

lemma sub_tail: "length xs = n \<Longrightarrow> sub xs k (n - k) = drop k xs"
  by (simp add: sub_def)

text \<open>
  The decisions the decoder can hand out for a number of calls, and their only encoding: the
  decoder accepts nothing else, so a decision is never read from bytes the encoder would not
  have written.
\<close>

definition decision_ok :: "u32 \<Rightarrow> decision \<Rightarrow> bool" where
  "decision_ok call_count d \<longleftrightarrow> call_count \<le> 16 \<and> text_ok (decision_stop_reason d) \<and>
     keep_mask d AND NOT (mask_for_count call_count) = 0 \<and> drop_count d \<le> call_count \<and>
     popcount (keep_mask d) + drop_count d = call_count"

definition decision_bytes :: "decision \<Rightarrow> bytes" where
  "decision_bytes d = response_bytes (keep_mask d) (drop_count d) (decision_stop_reason d)"

lemma response_decode_decision:
  assumes ok: "decision_ok call_count d"
  shows "response_decode (decision_bytes d) call_count = Some d"
proof -
  let ?r = "decision_stop_reason d" and ?bs = "decision_bytes d"
  have r: "text_ok ?r" and count: "\<not> call_count > of_nat toolCountMax"
    using ok by (simp_all add: decision_ok_def not_less)
  note f = response_fields [OF r, of "keep_mask d" "drop_count d", folded decision_bytes_def]
  have len: "length ?bs = 56" using r by (simp add: decision_bytes_def length_response_bytes text_ok_def)
  have "get_u32 ?bs 16 \<le> 31" using f(5) r by (simp add: word_le_nat_alt text_ok_def)
  then have rl: "\<not> get_u32 ?bs 16 > of_nat stopReasonMax" by simp
  have plain: "nonzero_text ?r" "zero_padding (sub (pad_slot ?r) (length ?r) (32 - length ?r))"
    using r by (auto simp: nonzero_text_def zero_padding_def list_all_iff text_ok_def pad_slot_def sub_def)
  show ?thesis
    using ok rl plain count by (simp add: response_decode_def len f Let_def not_less decision_ok_def)
qed

lemma response_decode_Some:
  assumes dec: "response_decode bs call_count = Some d"
  shows "decision_ok call_count d" and "bs = decision_bytes d"
proof -
  let ?n = "unat (get_u32 bs 16)"
  from dec have len: "length bs = 56" and n: "?n \<le> 31"
    and hdr: "get_u32 bs 0 = responseMagic" "get_u32 bs 4 = wireVersion" "get_u32 bs 20 = 0"
    by (auto simp: response_decode_def word_le_nat_alt not_less split: if_splits)
  let ?reason = "take ?n (drop 24 bs)"
  from dec n have d: "d = \<lparr>keep_mask = get_u32 bs 8, drop_count = get_u32 bs 12, decision_stop_reason = ?reason\<rparr>"
    and plain: "nonzero_text ?reason" "zero_padding (sub (drop 24 bs) ?n (32 - ?n))"
    and counts: "call_count \<le> 16" "get_u32 bs 8 AND NOT (mask_for_count call_count) = 0"
      "get_u32 bs 12 \<le> call_count" "popcount (get_u32 bs 8) + get_u32 bs 12 = call_count"
    by (auto simp: response_decode_def Let_def not_less split: if_splits)
  have slot: "length (drop 24 bs) = 32" using len by simp
  from plain have checks: "text_ok ?reason \<and> drop 24 bs = pad_slot ?reason"
    unfolding sub_tail [OF slot] c_text_checks using slot_checks_iff [OF slot n] by simp
  with counts show "decision_ok call_count d" by (simp add: decision_ok_def d)
  have fixed: "le32 responseMagic = sub bs 0 4" "le32 wireVersion = sub bs 4 4" "le32 0 = sub bs 20 4"
    using len hdr le_get(2) [of 0 bs] le_get(2) [of 4 bs] le_get(2) [of 20 bs] by simp_all
  have reason_len: "of_nat (length ?reason) = get_u32 bs 16" using len n by simp
  have tail: "pad_slot ?reason = sub bs 24 32" using checks len by (simp add: sub_def)
  have "decision_bytes d = sub bs 0 4 @ sub bs 4 4 @ sub bs 8 4 @ sub bs 12 4 @ sub bs 16 4 @
      sub bs 20 4 @ sub bs 24 32"
    unfolding decision_bytes_def response_bytes_def d decision.select_convs reason_len fixed tail
    using len by (simp add: le_get del: sub_0)
  also have "\<dots> = sub bs 0 56"
    using sub_split [of bs 0 4 52] sub_split [of bs 4 4 48] sub_split [of bs 8 4 44]
      sub_split [of bs 12 4 40] sub_split [of bs 16 4 36] sub_split [of bs 20 4 32]
    by (simp del: sub_0)
  finally show "bs = decision_bytes d" using len by simp
qed

interpretation govr: fixed_codec responseLen "decision_ok call_count" "\<lambda>_ n. n = 0" decision_bytes
    "\<lambda>bs. response_decode bs call_count" for call_count
proof unfold_locales
  fix d bs rest
  show len: "length (decision_bytes d) = responseLen" if "decision_ok call_count d" for d
    using that by (simp add: decision_ok_def decision_bytes_def length_response_bytes text_ok_def)
  show "response_decode (decision_bytes d @ rest) call_count = Some d"
    if "decision_ok call_count d" "length rest = 0"
    using that by (simp add: response_decode_decision)
  assume dec: "response_decode bs call_count = Some d"
  show "decision_ok call_count d" by (rule response_decode_Some(1) [OF dec])
  from len [OF this] response_decode_Some(2) [OF dec]
  show "responseLen \<le> length bs" "length bs - responseLen = 0" "decision_bytes d = take responseLen bs"
    by simp_all
qed

text \<open>What the Go policy answers is such a decision.\<close>

lemma response_decode_bytes:
  assumes ok: "policy_ok p" and ev: "evaluate p = (m, d, r)"
  shows "response_decode (response_bytes m d r) (of_nat (length (toolNames p))) =
    Some \<lparr>keep_mask = m, drop_count = d, decision_stop_reason = r\<rparr>"
proof -
  have n: "length (toolNames p) \<le> 16" "length (toolNames p) \<le> 32" using ok by (simp_all add: policy_ok_def)
  have "text_ok r" using evaluate_eq(3) [OF n(2) ev] final_reason_ok [OF ok] by simp
  then have "decision_ok (of_nat (length (toolNames p))) \<lparr>keep_mask = m, drop_count = d, decision_stop_reason = r\<rparr>"
    using decided_counts [OF n(1) ev] n(1) by (simp add: decision_ok_def word_le_nat_alt unat_of_nat)
  then show ?thesis
    using response_decode_decision by (fastforce simp: decision_bytes_def)
qed

section \<open>The decoder of requests\<close>

lemma c_string_write:
  assumes "length s \<le> 31" and "0 \<notin> set s" and "length buf = 32"
  shows "c_string ((blit buf 0 s)[length s := 0]) = s" and "length ((blit buf 0 s)[length s := 0]) = 32"
proof -
  have "(blit buf 0 s)[length s := 0] = s @ 0 # drop (Suc (length s)) buf"
    using assms by (simp add: blit_def list_update_append upd_conv_take_nth_drop)
  moreover have "takeWhile (\<lambda>b. b \<noteq> 0) (s @ 0 # ys) = s" for ys :: bytes
    using assms(2) by (subst takeWhile_append2) auto
  ultimately show "c_string ((blit buf 0 s)[length s := 0]) = s" by (simp add: c_string_def)
qed (simp add: assms)

text \<open>The C loop rejects what the Go loop rejects, and its buffers hold the same names.\<close>

lemma decode_rows_eq:
  assumes "length inp = 632" and "length bufs = 16" and "\<forall>b \<in> set bufs. length b = 32"
    and "distinct is" and "\<forall>i \<in> set is. i < 16"
  shows "case decode_rows inp count is bufs of
      None \<Rightarrow> \<not> (\<forall>i \<in> set is. slot_ok inp count i)
    | Some bufs' \<Rightarrow> (\<forall>i \<in> set is. slot_ok inp count i) \<and> length bufs' = 16 \<and>
        (\<forall>b \<in> set bufs'. length b = 32) \<and>
        (\<forall>i < 16. i \<notin> set is \<longrightarrow> bufs' ! i = bufs ! i) \<and>
        (\<forall>i \<in> set is. i < count \<longrightarrow> c_string (bufs' ! i) = name_at inp i)"
  using assms
proof (induction "is" arbitrary: bufs)
  case (Cons i "is")
  let ?n = "unat (get_u32 inp (24 + i * 4))" and ?slot = "sub inp (88 + i * 32) 32"
  have i: "i < 16" "i \<notin> set is" using Cons.prems by auto
  have slot: "length ?slot = 32" using Cons.prems(1) i by simp
  have ok: "slot_ok inp count i \<longleftrightarrow> \<not> (?n > 31 \<or> i \<ge> count \<and> ?n \<noteq> 0 \<or>
      \<not> nonzero_text (take ?n ?slot) \<or> \<not> zero_padding (sub ?slot ?n (32 - ?n)))"
    unfolding sub_tail [OF slot] c_text_checks using slot_checks_iff [OF slot, of ?n]
    by (cases "?n \<le> 31") (auto simp: slot_ok_def name_at_def unat_eq_zero)
  show ?case
  proof (cases "slot_ok inp count i")
    case False
    then show ?thesis using ok by (simp add: Let_def del: sub_sub)
  next
    case True
    then have name: "length (name_at inp i) \<le> 31" "0 \<notin> set (name_at inp i)" "length (name_at inp i) = ?n"
      using slot by (auto simp: slot_ok_def text_ok_def name_at_def)
    have buf: "length (bufs ! i) = 32" using Cons.prems(2,3) i(1) by simp
    define bufs1 where "bufs1 = bufs[i := if i < count then (blit (bufs ! i) 0 (name_at inp i))[?n := 0]
      else (bufs ! i)[0 := 0]]"
    have run: "decode_rows inp count (i # is) bufs = decode_rows inp count is bufs1"
      using True ok by (simp add: Let_def bufs1_def name_at_def del: sub_sub)
    have new: "length bufs1 = 16" "\<forall>b \<in> set bufs1. length b = 32"
      using Cons.prems(2,3) buf c_string_write(2) [OF name(1,2) buf] name(3)
      by (auto simp: bufs1_def dest!: set_update_subset_insert [THEN subsetD])
    have "i < count \<Longrightarrow> c_string (bufs1 ! i) = name_at inp i"
      using c_string_write(1) [OF name(1,2) buf] name(3) Cons.prems(2) i(1) by (simp add: bufs1_def)
    moreover have "\<forall>j < 16. j \<noteq> i \<longrightarrow> bufs1 ! j = bufs ! j" by (simp add: bufs1_def)
    moreover have "distinct is" "\<forall>i \<in> set is. i < 16" using Cons.prems by auto
    note Cons.IH [OF Cons.prems(1) new this]
    ultimately show ?thesis
      using True i unfolding run by (auto split: option.splits)
  qed
qed simp

text \<open>What the C decoder reads is what the Go decoder reads, and it rejects the same requests.\<close>

lemma request_decode_eq:
  assumes bufs: "length tool_names = 16" "\<forall>b \<in> set tool_names. length b = 32" and buf: "length stop_reason = 32"
  shows "case request_decode inp tool_names stop_reason of
      None \<Rightarrow> decodeRequest inp = None
    | Some (policy_active, names, count, reason) \<Rightarrow> \<exists>p. decodeRequest inp = Some p \<and>
        policy_active = (if active p then 1 else 0) \<and> unat count = length (toolNames p) \<and>
        map c_string (take (unat count) names) = toolNames p \<and> c_string reason = stopReason p"
proof (cases "length inp \<noteq> 632 \<or> get_u32 inp 0 \<noteq> requestMagic \<or> get_u32 inp 4 \<noteq> wireVersion \<or>
    get_u32 inp 8 > 1 \<or> get_u32 inp 12 > 16 \<or> get_u32 inp 16 > 31 \<or> get_u32 inp 20 \<noteq> 0")
  case True
  then show ?thesis by (auto simp: request_decode_def decodeRequest_def)
next
  case False
  let ?count = "unat (get_u32 inp 12)" and ?n = "unat (get_u32 inp 16)" and ?reason = "drop 600 inp"
  have len: "length inp = 632" using False by simp
  have count: "?count \<le> 16" and n: "?n \<le> 31" using False by (simp_all add: word_less_nat_alt)
  have act: "uint (get_u32 inp 8) = (if get_u32 inp 8 = 1 then 1 else 0)"
  proof -
    have "get_u32 inp 8 = 0 \<or> get_u32 inp 8 = 1"
      using False by (auto simp: word_less_nat_alt unat_eq_zero not_less le_Suc_eq) (metis One_nat_def unat_1 word_unat_eq_iff)
    then show ?thesis by auto
  qed
  have go: "decodeRequest inp = (case decode_slots inp ?count [0..<16] (replicate ?count []) of None \<Rightarrow> None
      | Some names \<Rightarrow> if \<not> nonzeroText (take ?n ?reason) \<or> \<not> zeroPadding (drop ?n ?reason) then None
        else Some \<lparr>active = (get_u32 inp 8 = 1), toolNames = names, stopReason = take ?n ?reason\<rparr>)"
    using False by (simp add: decodeRequest_def Let_def cong: option.case_cong)
  have reason: "zero_padding (sub ?reason ?n (32 - ?n)) = zeroPadding (drop ?n ?reason)"
    using len by (subst sub_tail) (simp_all add: c_text_checks)
  have c: "request_decode inp tool_names stop_reason = (case decode_rows inp ?count [0..<16] tool_names of None \<Rightarrow> None
      | Some names \<Rightarrow> if \<not> nonzeroText (take ?n ?reason) \<or> \<not> zeroPadding (drop ?n ?reason) then None
        else Some (uint (get_u32 inp 8), names, get_u32 inp 12, (blit stop_reason 0 (take ?n ?reason))[?n := 0]))"
    using False by (simp add: request_decode_def Let_def c_text_checks(1) reason [simplified] cong: option.case_cong)
  note rows = decode_rows_eq [OF len bufs distinct_upt, of 0 16 ?count]
  show ?thesis
  proof (cases "(\<forall>i < 16. slot_ok inp ?count i) \<and> nonzeroText (take ?n ?reason) \<and> zeroPadding (drop ?n ?reason)")
    case False
    then show ?thesis
      using rows unfolding c go decode_slots_all [OF len count] by (auto split: option.splits)
  next
    case True
    then obtain names where names: "decode_rows inp ?count [0..<16] tool_names = Some names" "length names = 16"
      and held: "\<forall>i < 16. i < ?count \<longrightarrow> c_string (names ! i) = name_at inp i"
      using rows by (cases "decode_rows inp ?count [0..<16] tool_names") auto
    have "map c_string (take ?count names) = map (name_at inp) [0..<?count]"
      by (rule nth_equalityI) (use names(2) held count in simp_all)
    moreover have "length (take ?n ?reason) = ?n" using len n by simp
    then have "c_string ((blit stop_reason 0 (take ?n ?reason))[?n := 0]) = take ?n ?reason"
      using c_string_write(1) [of "take ?n ?reason" stop_reason] True n buf by (simp add: nonzeroText_iff)
    ultimately show ?thesis
      using True names act unfolding c go decode_slots_all [OF len count] by simp
  qed
qed

end
