(* ===== verification/Governance_Host.thy ===== *)
theory Governance_Host
  imports Governance_Wire_C
begin

text \<open>
  The daemon's side of the governance stage, in C: the response stage of
  \<^verbatim>\<open>src/modules/governance/gw_stage_governance.c\<close> that applies the decision to a parsed response.
  The provider that carries the request to the module is a parameter. Proved here: with the Go
  handler behind the provider, the stage keeps exactly the calls that are not denied; with any
  provider it fails closed.
\<close>

section \<open>The stage\<close>

text \<open>
  What the stage uses of a parsed response: the array of calls, how many are in use, and the
  stop reason, a buffer of \<open>pr_stop_size\<close> bytes. Freed arguments are None.
\<close>

record parsed_call =
  call_name :: bytes
  call_arguments :: "bytes option"

record parsed_response =
  pr_calls :: "parsed_call list"
  pr_call_count :: int
  pr_stop_reason :: bytes
  pr_stop_size :: nat

definition decision_valid :: "decision option \<Rightarrow> u32 \<Rightarrow> bool" where
  "decision_valid decision call_count \<longleftrightarrow>
    (case decision of
       None \<Rightarrow> False
     | Some d \<Rightarrow>
         call_count \<le> of_nat toolCountMax \<and> length (decision_stop_reason d) \<le> stopReasonMax \<and>
         keep_mask d AND NOT (mask_for_count call_count) = 0 \<and> drop_count d \<le> call_count \<and>
         popcount (keep_mask d) + drop_count d = call_count)"

text \<open>The loop compacts the array in place: index, write index and array.\<close>

fun compact :: "u32 \<Rightarrow> nat list \<Rightarrow> nat \<Rightarrow> parsed_call list \<Rightarrow> nat \<times> parsed_call list" where
  "compact keep [] write_index calls = (write_index, calls)"
| "compact keep (i # is) write_index calls =
    (if keep AND push_bit i 1 = 0
     then compact keep is write_index (calls[i := (calls ! i)\<lparr>call_arguments := None\<rparr>])
     else compact keep is (Suc write_index)
            (if write_index \<noteq> i then calls[write_index := calls ! i] else calls))"

definition apply_decision :: "parsed_response \<Rightarrow> decision \<Rightarrow> parsed_response \<times> int" where
  "apply_decision parsed d =
    (let original_count = pr_call_count parsed;
         (write_index, calls) = compact (keep_mask d) [0..<nat original_count] 0 (pr_calls parsed)
     in (parsed\<lparr>pr_calls := calls, pr_call_count := int write_index,
           pr_stop_reason := take (pr_stop_size parsed - 1) (decision_stop_reason d)\<rparr>,
         original_count - int write_index))"

definition fail_closed :: "parsed_response \<Rightarrow> parsed_response \<times> int" where
  "fail_closed parsed =
     apply_decision parsed \<lparr>keep_mask = 0, drop_count = of_int (pr_call_count parsed),
       decision_stop_reason = ascii ''end_turn''\<rparr>"

text \<open>The registered provider, if any: success gives a decision.\<close>

type_synonym provider = "int \<Rightarrow> bytes list \<Rightarrow> bytes \<Rightarrow> decision option"

text \<open>Registering replaces the one global that holds the provider; a null pointer is None.\<close>

definition gw_response_governance_register_provider :: "provider option \<Rightarrow> provider option \<Rightarrow> provider option" where
  "gw_response_governance_register_provider provider g_decision_provider = provider"

definition governance_stage :: "provider option \<Rightarrow> int \<Rightarrow> parsed_response \<Rightarrow> parsed_response \<times> int" where
  "governance_stage provider policy_active parsed =
    (let parsed = (if pr_call_count parsed < 0 then parsed\<lparr>pr_call_count := 0\<rparr> else parsed);
         call_count = nat (pr_call_count parsed)
     in if call_count > toolCountMax
        then fail_closed (parsed\<lparr>pr_call_count := int toolCountMax\<rparr>)
        else
          (let tool_names = map call_name (take call_count (pr_calls parsed));
               decision = (case provider of None \<Rightarrow> None
                 | Some f \<Rightarrow> f policy_active tool_names (pr_stop_reason parsed))
           in case decision of
                Some d \<Rightarrow>
                  if decision_valid decision (of_nat call_count)
                  then (case apply_decision parsed d of (parsed, drops) \<Rightarrow> (parsed, if drops > 0 then drops else 0))
                  else if call_count > 0 then fail_closed parsed else (parsed, 0)
              | None \<Rightarrow> if call_count > 0 then fail_closed parsed else (parsed, 0)))"

text \<open>
  The opt-in switch reads an environment variable, whose value is the argument. \<^verbatim>\<open>strcasecmp\<close>
  compares without regard to the case of ASCII letters.
\<close>

definition ascii_lower :: "byte \<Rightarrow> byte" where
  "ascii_lower b = (if 65 \<le> b \<and> b \<le> 90 then b + 32 else b)"

definition same_nocase :: "bytes \<Rightarrow> bytes \<Rightarrow> bool" where
  "same_nocase a b \<longleftrightarrow> map ascii_lower a = map ascii_lower b"

definition gw_response_governance_enabled :: "bytes option \<Rightarrow> bool" where
  "gw_response_governance_enabled v =
    (case v of
       None \<Rightarrow> False
     | Some v \<Rightarrow> v \<noteq> [] \<and>
         (same_nocase v (ascii ''1'') \<or> same_nocase v (ascii ''on'') \<or>
          same_nocase v (ascii ''true'') \<or> same_nocase v (ascii ''yes'')))"

text \<open>
  The registry that builds the list of stages from a catalog and runs it belongs to the daemon:
  a parameter. A slot is a name, the stage with its context, and whether it is enabled.
\<close>

type_synonym stage = "parsed_response \<Rightarrow> parsed_response \<times> int"

record 's registry =
  registry_build :: "(bytes \<times> stage \<times> int) list \<Rightarrow> nat \<Rightarrow> int \<times> 's"
  pipeline_run :: "'s \<Rightarrow> nat \<Rightarrow> parsed_response \<Rightarrow> parsed_response \<times> int"

definition gw_response_run_governance ::
    "'s registry \<Rightarrow> provider option \<Rightarrow> parsed_response option \<Rightarrow> int \<Rightarrow> int \<Rightarrow> parsed_response option \<times> int" where
  "gw_response_run_governance reg provider parsed enabled policy_active =
    (case parsed of
       None \<Rightarrow> (None, 0)
     | Some parsed \<Rightarrow>
         (let stage = governance_stage provider (if policy_active \<noteq> 0 then 1 else 0);
              (n, stages) = registry_build reg [(ascii ''governance'', stage, enabled)] 2
          in if n < 0 then (Some parsed, 0)
             else (case pipeline_run reg stages (nat n) parsed of
                 (parsed, interventions) \<Rightarrow> (Some parsed, interventions))))"

section \<open>Compaction\<close>

lemma compact_spec:
  "write_index \<le> lo \<Longrightarrow> hi \<le> length calls \<Longrightarrow> lo \<le> hi \<Longrightarrow> hi \<le> 32 \<Longrightarrow> compact keep [lo..<hi] write_index calls = (n, calls') \<Longrightarrow>
   length calls' = length calls \<and> n = write_index + length (filter (bit keep) [lo..<hi]) \<and>
   take n calls' = take write_index calls @ map ((!) calls) (filter (bit keep) [lo..<hi])"
proof (induction "hi - lo" arbitrary: lo write_index calls)
  case (Suc k)
  then have lo: "lo < hi" and upt: "[lo..<hi] = lo # [Suc lo..<hi]" by (simp_all add: upt_conv_Cons)
  have bit: "keep AND push_bit lo 1 = 0 \<longleftrightarrow> \<not> bit keep lo"
    by (simp add: push_bit_eq_mult and_exp_eq_0_iff_not_bit)
  define calls1 where "calls1 = (if \<not> bit keep lo then calls[lo := (calls ! lo)\<lparr>call_arguments := None\<rparr>]
    else if write_index \<noteq> lo then calls[write_index := calls ! lo] else calls)"
  define w1 where "w1 = (if bit keep lo then Suc write_index else write_index)"
  have run: "compact keep [Suc lo..<hi] w1 calls1 = (n, calls')"
    using Suc.prems(5) by (auto simp: upt and_exp_eq_0_iff_not_bit calls1_def w1_def split: if_splits)
  have len: "length calls1 = length calls" by (simp add: calls1_def)
  have rest: "map ((!) calls1) (filter (bit keep) [Suc lo..<hi]) = map ((!) calls) (filter (bit keep) [Suc lo..<hi])"
    using Suc.prems(1) by (auto simp: calls1_def)
  have head: "take w1 calls1 = take write_index calls @ (if bit keep lo then [calls ! lo] else [])"
    using Suc.prems(1,2) lo by (auto simp: calls1_def w1_def take_Suc_conv_app_nth take_update_swap list_update_beyond)
  have "length calls' = length calls1 \<and> n = w1 + length (filter (bit keep) [Suc lo..<hi]) \<and>
    take n calls' = take w1 calls1 @ map ((!) calls1) (filter (bit keep) [Suc lo..<hi])"
    by (rule Suc.hyps(1) [OF _ _ _ _ _ run]) (use Suc.hyps(2) Suc.prems lo len in \<open>auto simp: w1_def\<close>)
  then show ?case
    using rest head len by (cases "bit keep lo") (auto simp: upt w1_def)
qed simp

section \<open>What the stage does\<close>

abbreviation calls_in_use :: "parsed_response \<Rightarrow> parsed_call list" where
  "calls_in_use parsed \<equiv> take (nat (pr_call_count parsed)) (pr_calls parsed)"

lemma length_nths_le: "length (nths xs A) \<le> length xs"
  by (induction xs arbitrary: A) (simp_all add: nths_Cons le_SucI)

lemma map_nth_filter: "map ((!) xs) (filter P [0..<length xs]) = nths xs {j. P j}"
proof (induction xs rule: rev_induct)
  case (snoc x xs)
  have "map ((!) (xs @ [x])) (filter P [0..<length xs]) = map ((!) xs) (filter P [0..<length xs])"
    by (rule map_cong) (auto simp: nth_append)
  with snoc show ?case by (simp add: nths_append)
qed simp

lemma apply_decision_spec:
  assumes "nat (pr_call_count parsed) \<le> length (pr_calls parsed)" and "nat (pr_call_count parsed) \<le> 32"
    and "apply_decision parsed d = (parsed', drops)" and "0 \<le> pr_call_count parsed"
  shows "calls_in_use parsed' = nths (calls_in_use parsed) {j. bit (keep_mask d) j}"
    and "pr_call_count parsed' = int (length (calls_in_use parsed'))"
    and "pr_stop_reason parsed' = take (pr_stop_size parsed - 1) (decision_stop_reason d)"
    and "drops = pr_call_count parsed - pr_call_count parsed'"
proof -
  let ?n = "nat (pr_call_count parsed)" and ?P = "bit (keep_mask d)"
  obtain w calls where c: "compact (keep_mask d) [0..<?n] 0 (pr_calls parsed) = (w, calls)"
    by (metis surj_pair)
  from compact_spec [OF _ assms(1) _ assms(2) c] have spec: "length calls = length (pr_calls parsed)"
    "w = length (filter ?P [0..<?n])" "take w calls = map ((!) (pr_calls parsed)) (filter ?P [0..<?n])" by auto
  let ?in = "calls_in_use parsed"
  have n: "length ?in = ?n" using assms(1) by simp
  have same: "map ((!) (pr_calls parsed)) (filter ?P [0..<?n]) = map ((!) ?in) (filter ?P [0..<?n])"
    by (rule map_cong) auto
  have kept: "take w calls = nths ?in {j. ?P j}"
    using map_nth_filter [of ?in ?P, unfolded n] by (simp only: spec(3) same)
  have "w \<le> length calls" using spec(1,2) assms(1) length_filter_le [of ?P "[0..<?n]"] by simp
  moreover have new: "pr_call_count parsed' = int w" "pr_calls parsed' = calls"
    using assms(3) by (auto simp: apply_decision_def Let_def c)
  moreover have "length (take w calls) = w" using \<open>w \<le> length calls\<close> by simp
  ultimately show "calls_in_use parsed' = nths ?in {j. ?P j}"
    and "pr_call_count parsed' = int (length (calls_in_use parsed'))"
    using kept by (simp, metis nat_int)
  show "pr_stop_reason parsed' = take (pr_stop_size parsed - 1) (decision_stop_reason d)"
    and "drops = pr_call_count parsed - pr_call_count parsed'"
    using assms(3) by (auto simp: apply_decision_def Let_def c)
qed

text \<open>Without a valid decision no call survives.\<close>

lemma fail_closed_spec:
  assumes "nat (pr_call_count parsed) \<le> length (pr_calls parsed)" and "nat (pr_call_count parsed) \<le> 32"
    and "0 \<le> pr_call_count parsed"
  shows "pr_call_count (fst (fail_closed parsed)) = 0"
    and "pr_stop_reason (fst (fail_closed parsed)) = take (pr_stop_size parsed - 1) (ascii ''end_turn'')"
    and "snd (fail_closed parsed) = pr_call_count parsed"
proof -
  obtain parsed' drops where r: "fail_closed parsed = (parsed', drops)" by (metis surj_pair)
  note a = apply_decision_spec [OF assms(1,2) r [unfolded fail_closed_def] assms(3)]
  have none: "calls_in_use parsed' = []" using a(1) by simp
  then have "pr_call_count parsed' = 0" using a(2) by (simp only: list.size of_nat_0)
  then show "pr_call_count (fst (fail_closed parsed)) = 0"
    and "pr_stop_reason (fst (fail_closed parsed)) = take (pr_stop_size parsed - 1) (ascii ''end_turn'')"
    and "snd (fail_closed parsed) = pr_call_count parsed"
    using a(3,4) by (simp_all add: r)
qed

text \<open>
  With a registry that runs exactly the enabled stages of the catalog, one after the other,
  running governance is the stage when it is enabled, and leaves the response alone otherwise.
\<close>

fun run_stages :: "stage list \<Rightarrow> parsed_response \<Rightarrow> parsed_response \<times> int" where
  "run_stages [] parsed = (parsed, 0)"
| "run_stages (f # fs) parsed =
    (case f parsed of (parsed, n) \<Rightarrow> case run_stages fs parsed of (parsed, m) \<Rightarrow> (parsed, n + m))"

definition plain_registry :: "stage list registry" where
  "plain_registry = \<lparr>
     registry_build = (\<lambda>slots limit. let fs = map (fst \<circ> snd) (filter (\<lambda>(name, f, enabled). enabled \<noteq> 0) slots)
       in (if length fs \<le> limit then int (length fs) else -1, fs)),
     pipeline_run = (\<lambda>fs n. run_stages (take n fs))\<rparr>"

lemma run_governance_spec:
  "gw_response_run_governance plain_registry provider parsed enabled policy_active =
    (case parsed of None \<Rightarrow> (None, 0)
     | Some p \<Rightarrow> if enabled = 0 then (Some p, 0)
         else map_prod Some id (governance_stage provider (if policy_active \<noteq> 0 then 1 else 0) p))"
  by (auto simp: gw_response_run_governance_def plain_registry_def Let_def split: option.splits prod.splits)

lemma governance_switch:
  "gw_response_governance_enabled None = False"
  "gw_response_governance_enabled (Some []) = False"
  "gw_response_governance_enabled (Some (ascii ''YES''))"
  "\<not> gw_response_governance_enabled (Some (ascii ''off''))"
  by (simp_all add: gw_response_governance_enabled_def same_nocase_def ascii_def ascii_lower_def)

text \<open>What the stage asks its provider, and what it makes of the answer for up to sixteen calls.\<close>

definition provided :: "provider option \<Rightarrow> int \<Rightarrow> parsed_response \<Rightarrow> decision option" where
  "provided provider policy_active parsed =
    (case provider of None \<Rightarrow> None
     | Some f \<Rightarrow> f policy_active (map call_name (calls_in_use parsed)) (pr_stop_reason parsed))"

lemma governance_stage_few:
  assumes "0 \<le> pr_call_count parsed" and "nat (pr_call_count parsed) \<le> 16"
  shows "governance_stage provider policy_active parsed =
    (let closed = (if nat (pr_call_count parsed) > 0 then fail_closed parsed else (parsed, 0))
     in case provided provider policy_active parsed of
          None \<Rightarrow> closed
        | Some d \<Rightarrow> if decision_valid (Some d) (of_nat (nat (pr_call_count parsed)))
            then (case apply_decision parsed d of (parsed, drops) \<Rightarrow> (parsed, if drops > 0 then drops else 0)) else closed)"
  using assms by (simp add: governance_stage_def provided_def Let_def cong: option.case_cong split: option.splits)

section \<open>Properties\<close>

text \<open>
  C6. The daemon's stage fails closed: whatever the provider does, either it returned a valid
  decision for the calls in use, and then exactly the calls its mask keeps remain, in order and
  with their arguments, and the response gets its stop reason; or no tool call remains at all,
  and every one of up to sixteen is reported as dropped.
\<close>

theorem stage_fails_closed:
  assumes "governance_stage provider policy_active parsed = (parsed', drops)"
    and "0 \<le> pr_call_count parsed" and "nat (pr_call_count parsed) \<le> length (pr_calls parsed)"
  shows "(\<exists>f d. provider = Some f \<and>
      f policy_active (map call_name (calls_in_use parsed)) (pr_stop_reason parsed) = Some d \<and>
      decision_valid (Some d) (of_nat (nat (pr_call_count parsed))) \<and>
      calls_in_use parsed' = nths (calls_in_use parsed) {j. bit (keep_mask d) j} \<and>
      pr_stop_reason parsed' = take (pr_stop_size parsed - 1) (decision_stop_reason d) \<and>
      drops = pr_call_count parsed - pr_call_count parsed') \<or>
    pr_call_count parsed' = 0 \<and> drops = min 16 (pr_call_count parsed) \<and>
      (pr_call_count parsed > 0 \<longrightarrow> pr_stop_reason parsed' = take (pr_stop_size parsed - 1) (ascii ''end_turn''))"
proof (cases "nat (pr_call_count parsed) > 16")
  case True
  then have "fail_closed (parsed\<lparr>pr_call_count := 16\<rparr>) = (parsed', drops)"
    using assms(1,2) by (simp add: governance_stage_def Let_def)
  with fail_closed_spec [of "parsed\<lparr>pr_call_count := 16\<rparr>"] assms True show ?thesis by simp
next
  case False
  let ?n = "nat (pr_call_count parsed)" and ?d = "provided provider policy_active parsed"
  have few: "?n \<le> 16" and small: "?n \<le> 32" using False by simp_all
  note stage = governance_stage_few [OF assms(2) few, of provider policy_active, unfolded assms(1)]
  show ?thesis
  proof (cases "\<exists>d. ?d = Some d \<and> decision_valid (Some d) (of_nat ?n)")
    case True
    then obtain d f where d: "?d = Some d" "decision_valid (Some d) (of_nat ?n)" and f: "provider = Some f"
      by (cases provider) (auto simp: provided_def)
    obtain p1 d1 where a: "apply_decision parsed d = (p1, d1)" by (metis surj_pair)
    note spec = apply_decision_spec [OF assms(3) small a assms(2)]
    have "length (nths (calls_in_use parsed) {j. bit (keep_mask d) j}) \<le> ?n"
      using length_nths_le [of "calls_in_use parsed"] assms(3) by simp
    then have "0 \<le> d1" using spec(1,2,4) assms(2) by (simp only:)
    then have "parsed' = p1" "drops = d1" using stage d a by (auto split: if_splits)
    with spec d f show ?thesis by (auto simp: provided_def)
  next
    case False
    have "(parsed', drops) = (if ?n > 0 then fail_closed parsed else (parsed, 0))"
    proof (cases ?d)
      case (Some d)
      with False have "\<not> decision_valid (Some d) (of_nat ?n)" by blast
      then show ?thesis using stage Some by (simp only: Let_def option.case if_False)
    qed (use stage in \<open>simp only: Let_def option.case\<close>)
    with fail_closed_spec [OF assms(3) small assms(2)] assms(2) few show ?thesis
      by (cases "?n > 0"; cases "fail_closed parsed") auto
  qed
qed

text \<open>A parsed response for the samples: one call that is denied, one that is not.\<close>

definition sample_parsed :: parsed_response where
  "sample_parsed = \<lparr>pr_calls = [\<lparr>call_name = ascii ''Agent'', call_arguments = Some (ascii ''{}'')\<rparr>,
       \<lparr>call_name = ascii ''bash'', call_arguments = Some (ascii ''ls'')\<rparr>],
     pr_call_count = 2, pr_stop_reason = [], pr_stop_size = 32\<rparr>"

lemma sample_in_use: "calls_in_use sample_parsed = pr_calls sample_parsed"
  by (simp add: sample_parsed_def)

theorem stage_fails_closed_witness:
  "\<exists>parsed'. governance_stage None 1 sample_parsed = (parsed', 2) \<and> pr_call_count parsed' = 0"
proof -
  obtain parsed' drops where run: "governance_stage None 1 sample_parsed = (parsed', drops)" by (metis surj_pair)
  from stage_fails_closed [OF run] run show ?thesis by (simp add: sample_parsed_def)
qed

text \<open>
  C5. With the Go handler behind the provider, the daemon's response keeps exactly the calls the
  policy does not deny: the C encoder's request is the one the handler decodes, the handler's
  response is one the C decoder accepts, and applying it leaves the surviving calls in order and
  with their arguments, the final stop reason, and the number of denied calls as interventions.
\<close>

theorem stage_enforces_policy:
  assumes "policy_ok p" and "InvStageID call = StageEvaluate" and "\<not> Cancelled call fl now"
    and "provider = (\<lambda>policy_active tool_names reason.
      case request_encode policy_active (map Some tool_names) (Some reason) requestLen of
        None \<Rightarrow> None
      | Some request \<Rightarrow> (case Handle call fl now request of (response, status) \<Rightarrow>
          if status = ModuleStatusOK then response_decode response (of_nat (length tool_names)) else None))"
    and "map call_name (calls_in_use parsed) = toolNames p" and "pr_stop_reason parsed = stopReason p"
    and "0 \<le> pr_call_count parsed" and "nat (pr_call_count parsed) \<le> length (pr_calls parsed)"
    and "32 \<le> pr_stop_size parsed"
    and "governance_stage (Some provider) (if active p then 1 else 0) parsed = (parsed', drops)"
  shows "calls_in_use parsed' = filter (\<lambda>c. active p \<longrightarrow> \<not> deniedTool (call_name c)) (calls_in_use parsed) \<and>
    pr_call_count parsed' = int (length (surviving_calls p)) \<and>
    pr_stop_reason parsed' = final_reason p \<and> drops = int (length (denied_calls p))"
proof -
  obtain m d r where ev: "evaluate p = (m, d, r)" by (cases "evaluate p") auto
  let ?d = "\<lparr>keep_mask = m, drop_count = d, decision_stop_reason = r\<rparr>"
  let ?n = "nat (pr_call_count parsed)" and ?in = "calls_in_use parsed"
  have len: "length (toolNames p) = ?n" using assms(5,8) by (metis length_map length_take min_absorb2)
  have n: "length (toolNames p) \<le> 16" "length (toolNames p) \<le> 32" using assms(1) by (simp_all add: policy_ok_def)
  note e = evaluate_eq [OF n(2) ev]
  have r: "text_ok r" using e(3) final_reason_ok [OF assms(1)] by simp
  have prov: "provider (if active p then 1 else 0) (map call_name ?in) (pr_stop_reason parsed) = Some ?d"
    using assms(2,3) request_encode_bytes [OF assms(1) order_refl] response_decode_bytes [OF assms(1) ev]
    by (simp add: assms(4) assms(5,6) Handle_request_bytes [OF assms(1)] ev)
  have "decision_valid (Some ?d) (of_nat ?n)"
    using decided_counts [OF n(1) ev] n(1) r len
    by (simp add: decision_valid_def word_le_nat_alt unat_of_nat text_ok_def)
  moreover have few: "\<not> ?n > toolCountMax" using n(1) len by simp
  moreover obtain p1 d1 where a: "apply_decision parsed ?d = (p1, d1)" by (metis surj_pair)
  ultimately have res: "parsed' = p1" "drops = (if d1 > 0 then d1 else 0)"
    using assms(7,10) prov by (auto simp: governance_stage_def Let_def not_less)
  have "?n \<le> 32" using n(2) len by simp
  note spec = apply_decision_spec [OF assms(8) this a assms(7)]
  have name: "call_name (?in ! j) = toolNames p ! j" if "j < ?n" for j
    using that assms(5,8) by (metis len length_map nth_map)
  have "nths ?in {j. bit m j} = filter (\<lambda>c. active p \<longrightarrow> \<not> deniedTool (call_name c)) ?in"
    unfolding filter_eq_nths using e(1) name len assms(8)
    by (intro arg_cong [where f = "nths ?in"]) auto
  then have kept: "calls_in_use p1 = filter (\<lambda>c. active p \<longrightarrow> \<not> deniedTool (call_name c)) ?in"
    using spec(1) by simp
  have "map call_name (calls_in_use p1) = filter (\<lambda>t. active p \<longrightarrow> \<not> deniedTool t) (toolNames p)"
    unfolding kept assms(5) [symmetric] by (simp add: filter_map comp_def)
  then have "length (calls_in_use p1) = length (surviving_calls p)"
    by (metis (no_types, lifting) filter_cong filter_True length_map surviving_calls_def)
  then have count: "pr_call_count p1 = int (length (surviving_calls p))" using spec(2) by simp
  have "length (surviving_calls p) + length (denied_calls p) = ?n"
    using sum_length_filter_compl [of deniedTool "toolNames p"] len
    by (auto simp: surviving_calls_def denied_calls_def)
  then have "d1 = int (length (denied_calls p))" using spec(4) count assms(7) by linarith
  moreover have "take (pr_stop_size parsed - 1) r = r" using r assms(9) by (auto simp: text_ok_def)
  ultimately show ?thesis
    using kept count spec(3) e(3) res by simp
qed

theorem stage_enforces_policy_witness:
  "\<exists>provider parsed'. governance_stage (Some provider) 1 sample_parsed = (parsed', 1) \<and>
    map call_name (calls_in_use parsed') = [ascii ''bash''] \<and> pr_stop_reason parsed' = ascii ''tool_use''"
proof -
  let ?provider = "\<lambda>policy_active tool_names reason.
      case request_encode policy_active (map Some tool_names) (Some reason) requestLen of
        None \<Rightarrow> None
      | Some request \<Rightarrow> (case Handle sample_call (\<lambda>_. False) 10 request of (response, status) \<Rightarrow>
          if status = ModuleStatusOK then response_decode response (of_nat (length tool_names)) else None)"
  define parsed' where "parsed' = fst (governance_stage (Some ?provider) (if active sample_policy then 1 else 0) sample_parsed)"
  define drops where "drops = snd (governance_stage (Some ?provider) (if active sample_policy then 1 else 0) sample_parsed)"
  have run: "governance_stage (Some ?provider) (if active sample_policy then 1 else 0) sample_parsed = (parsed', drops)"
    unfolding parsed'_def drops_def by (rule prod.collapse [symmetric])
  have parsed: "map call_name (calls_in_use sample_parsed) = toolNames sample_policy"
    "pr_stop_reason sample_parsed = stopReason sample_policy" "0 \<le> pr_call_count sample_parsed"
    "nat (pr_call_count sample_parsed) \<le> length (pr_calls sample_parsed)" "32 \<le> pr_stop_size sample_parsed"
    unfolding sample_in_use by (simp_all add: sample_parsed_def sample_policy_def)
  note r = stage_enforces_policy [OF sample_policy_ok sample_call_runs refl parsed run]
  have act: "active sample_policy" by (simp add: sample_policy_def)
  have "calls_in_use parsed' = [\<lparr>call_name = ascii ''bash'', call_arguments = Some (ascii ''ls'')\<rparr>]"
    using r [THEN conjunct1] unfolding sample_in_use
    by (simp add: sample_parsed_def act deniedTool_def ascii_def)
  then have names: "map call_name (calls_in_use parsed') = [ascii ''bash'']" by (simp only: list.map parsed_call.select_convs)
  have rest: "pr_stop_reason parsed' = ascii ''tool_use''" "drops = 1" using r by (simp_all add: sample_policy_facts)
  have "governance_stage (Some ?provider) 1 sample_parsed = (parsed', 1)"
    using run unfolding rest if_P [OF act] .
  then show ?thesis
    by (intro exI [of _ ?provider] exI [of _ parsed'] conjI names rest(1))
qed

end
