(* ===== verification/Governance_Adapter.thy ===== *)
theory Governance_Adapter
  imports Governance_Wire_C
begin

text \<open>
  The retained C adapter of the governance stage, \<^verbatim>\<open>src/modules/governance/module_adapter.c\<close>,
  and its parity with the Go handler that replaced it. Whether the invocation is cancelled is
  asked of the C runtime, which is not part of the repository: a parameter. Proved here: on
  every request both give the same status and the same response bytes.
\<close>

section \<open>The adapter\<close>

text \<open>The status values are declared with the C runtime; only their names are used here.\<close>

datatype c_status = C_OK | C_INVALID_REQUEST | C_CANCELLED | C_INTERNAL

definition denied_tool :: "bytes \<Rightarrow> bool" where
  "denied_tool name \<longleftrightarrow> name = ascii ''Agent'' \<or> name = ascii ''spawn_agent'' \<or>
     name = ascii ''RemoteTrigger'' \<or> name = ascii ''Task''"

fun adapter_loop :: "bytes list \<Rightarrow> nat list \<Rightarrow> u32 \<Rightarrow> u32 \<Rightarrow> u32 \<times> u32" where
  "adapter_loop tool_names [] keep drops = (keep, drops)"
| "adapter_loop tool_names (i # is) keep drops =
    (if denied_tool (c_string (tool_names ! i)) then adapter_loop tool_names is keep (drops + 1)
     else adapter_loop tool_names is (keep OR push_bit i 1) drops)"

text \<open>
  The handler on the stage and the cancellation of its invocation, the request, the capacity of
  the response buffer, and what its local buffers hold before they are written: the status, and
  the response when it is C_OK. \<^verbatim>\<open>snprintf\<close> writes at most 31 bytes of a string into a buffer of 32.
\<close>

definition aimee_module_handler ::
    "u32 \<Rightarrow> bool \<Rightarrow> bytes \<Rightarrow> nat \<Rightarrow> bytes list \<Rightarrow> bytes \<Rightarrow> c_status \<times> bytes" where
  "aimee_module_handler stage_id cancelled request_body response_capacity tool_names original_reason =
    (if stage_id \<noteq> StageEvaluate \<or> response_capacity < responseLen then (C_INVALID_REQUEST, [])
     else case request_decode request_body tool_names original_reason of
       None \<Rightarrow> (C_INVALID_REQUEST, [])
     | Some (policy_active, tool_names, call_count, original_reason) \<Rightarrow>
         if cancelled then (C_CANCELLED, [])
         else
           (let keep = mask_for_count call_count;
                final_reason = take 31 (c_string original_reason);
                (keep, drops, final_reason) =
                  (if policy_active \<noteq> 0 \<and> call_count > 0
                   then (let (keep, drops) = adapter_loop tool_names [0..<unat call_count] 0 0;
                             kept = call_count - drops
                         in (keep, drops,
                             if c_string original_reason = [] \<or> kept = 0
                             then (if kept > 0 then ascii ''tool_use'' else ascii ''end_turn'')
                             else final_reason))
                   else (keep, 0, final_reason))
            in case response_encode keep drops (Some final_reason) response_capacity of
                 None \<Rightarrow> (C_INTERNAL, [])
               | Some response \<Rightarrow> (C_OK, response)))"

section \<open>Parity\<close>

fun c_status_of :: "c_status \<Rightarrow> ModuleStatus" where
  "c_status_of C_OK = ModuleStatusOK"
| "c_status_of C_INVALID_REQUEST = ModuleStatusInvalidRequest"
| "c_status_of C_CANCELLED = ModuleStatusCancelled"
| "c_status_of C_INTERNAL = ModuleStatusInternal"

lemma response_encode_bytes:
  assumes "length r \<le> 31" and "56 \<le> capacity"
  shows "response_encode m d (Some r) capacity = Some (response_bytes m d r)"
proof -
  have "blit (replicate 36 0) 4 r = le32 0 @ pad_slot r"
    using assms by (simp add: blit_def pad_slot_def le32_0 flip: replicate_add) (simp add: eval_nat_numeral)
  moreover have "blit (put_u32 16 b (put_u32 12 d (put_u32 8 m (put_u32 4 w (put_u32 0 a (replicate 56 0)))))) 24 r =
      le32 a @ le32 w @ le32 m @ le32 d @ le32 b @ blit (replicate 36 0) 4 r" for a w b
    by (simp add: put_skip put_head blit_skip)
  ultimately show ?thesis
    using assms by (simp add: response_encode_def response_bytes_def Let_def)
qed

lemma adapter_loop_eq:
  assumes "hi \<le> length names"
  shows "lo \<le> hi \<Longrightarrow> adapter_loop names [lo..<hi] keep drops =
    (case evaluate_loop lo (map c_string (drop lo (take hi names))) drops keep of (d, m) \<Rightarrow> (m, d))"
proof (induction "hi - lo" arbitrary: lo keep drops)
  case (Suc k)
  then have lo: "lo < hi" and upt: "[lo..<hi] = lo # [Suc lo..<hi]" by (simp_all add: upt_conv_Cons)
  have "drop lo (take hi names) = names ! lo # drop (Suc lo) (take hi names)"
    using lo assms by (simp add: Cons_nth_drop_Suc [symmetric])
  with Suc.hyps(1) [of "Suc lo"] Suc.hyps(2) lo show ?case
    by (simp add: upt denied_tool_def deniedTool_def)
qed simp

lemma kept_eq:
  fixes count drops :: u32
  assumes "unat drops \<le> unat count"
  shows "count - drops = 0 \<longleftrightarrow> unat drops = unat count" and "count - drops > 0 \<longleftrightarrow> unat drops < unat count"
proof -
  have sub: "unat (count - drops) = unat count - unat drops"
    using assms by (simp add: unat_sub word_le_nat_alt)
  have "count - drops = 0 \<longleftrightarrow> unat (count - drops) = 0" by (rule unat_eq_zero [symmetric])
  then show "count - drops = 0 \<longleftrightarrow> unat drops = unat count" unfolding sub using assms by linarith
  have "count - drops > 0 \<longleftrightarrow> 0 < unat (count - drops)" by (simp add: word_less_nat_alt)
  then show "count - drops > 0 \<longleftrightarrow> unat drops < unat count" unfolding sub by linarith
qed

text \<open>The C policy on the buffers of a decoded request is the Go policy on the request.\<close>

lemma adapter_policy:
  assumes count: "unat call_count = length (toolNames p)" and n: "length (toolNames p) \<le> 16"
    and bufs: "map c_string (take (unat call_count) bufs) = toolNames p"
    and reason: "c_string reason = stopReason p" "text_ok (stopReason p)"
    and active: "policy_active = (if active p then 1 else 0 :: int)"
  shows "(if policy_active \<noteq> 0 \<and> call_count > 0
      then (let (keep, drops) = adapter_loop bufs [0..<unat call_count] 0 0;
                kept = call_count - drops
            in (keep, drops,
                if c_string reason = [] \<or> kept = 0
                then (if kept > 0 then ascii ''tool_use'' else ascii ''end_turn'')
                else take 31 (c_string reason)))
      else (mask_for_count call_count, 0, take 31 (c_string reason))) = evaluate p"
proof -
  have same: "take 31 (stopReason p) = stopReason p" using reason(2) by (simp add: text_ok_def)
  have zero: "call_count = 0 \<longleftrightarrow> toolNames p = []" using count by (metis length_0_conv unat_eq_zero)
  have all: "mask_for_count call_count = (if length (toolNames p) > 0 then push_bit (length (toolNames p)) 1 - 1 else 0)"
    by (simp add: mask_for_count_def count zero)
  show ?thesis
  proof (cases "active p \<and> toolNames p \<noteq> []")
    case False
    then have "\<not> (policy_active \<noteq> 0 \<and> call_count > 0)" by (auto simp: active word_gt_0 zero)
    then show ?thesis
      unfolding if_not_P [OF \<open>\<not> (policy_active \<noteq> 0 \<and> call_count > 0)\<close>] reason(1) same all evaluate_def Let_def
      using False by (auto simp del: push_bit_of_1)
  next
    case True
    obtain d m where loop: "evaluate_loop 0 (toolNames p) 0 0 = (d, m)" by (cases "evaluate_loop 0 (toolNames p) 0 0")
    have "length (take (unat call_count) bufs) = unat call_count" using bufs count by (metis length_map)
    then have "unat call_count \<le> length bufs" by (simp add: min_def split: if_splits)
    from adapter_loop_eq [OF this, of 0 0 0] have c: "adapter_loop bufs [0..<unat call_count] 0 0 = (m, d)"
      using bufs loop by simp
    have "d = of_nat (length (filter deniedTool (toolNames p)))"
      using evaluate_loop_eq [OF _ loop] n by simp
    then have d: "unat d = length (filter deniedTool (toolNames p))"
      using n unat_count [of "toolNames p" deniedTool] by simp
    then have ui: "uint d = int (length (filter deniedTool (toolNames p)))" by (simp only: d uint_nat)
    have few: "length (filter deniedTool (toolNames p)) \<le> length (toolNames p)" by simp
    then have "unat d \<le> unat call_count" by (simp only: d count)
    note kept = kept_eq [OF this, unfolded count d]
    have run: "policy_active \<noteq> 0 \<and> call_count > 0" using True by (simp add: active word_gt_0 zero)
    have go: "\<not> (\<not> active p \<or> length (toolNames p) = 0)" using True by simp
    have ints: "int (length (toolNames p)) - int (unat d) = 0 \<longleftrightarrow> length (filter deniedTool (toolNames p)) = length (toolNames p)"
      "int (length (toolNames p)) - int (unat d) > 0 \<longleftrightarrow> length (filter deniedTool (toolNames p)) < length (toolNames p)"
      unfolding d by linarith+
    show ?thesis
      unfolding if_P [OF run] evaluate_def Let_def if_not_P [OF go] c loop prod.case kept reason(1) same ints ..
  qed
qed

section \<open>Properties\<close>

text \<open>
  C7. Wire parity of the two implementations of the stage: for every invocation and every byte
  string as request, the C adapter with room for a response gives the status the Go handler
  gives and, when that is OK, the same 56 bytes, whatever its local buffers held before.
\<close>

theorem adapter_parity:
  assumes "length tool_names = 16" and "\<forall>b \<in> set tool_names. length b = 32" and "length original_reason = 32"
    and "responseLen \<le> capacity"
    and "aimee_module_handler (InvStageID call) (Cancelled call fl now) request capacity tool_names original_reason =
      (status, body)"
  shows "Handle call fl now request = (body, c_status_of status)"
proof (cases "InvStageID call = StageEvaluate")
  case False
  then show ?thesis using assms(5) by (auto simp: aimee_module_handler_def Handle_def)
next
  case stage: True
  note dec = request_decode_eq [OF assms(1-3), of request]
  show ?thesis
  proof (cases "request_decode request tool_names original_reason")
    case None
    with dec stage assms(4,5) show ?thesis by (auto simp: aimee_module_handler_def Handle_def)
  next
    case (Some r)
    then obtain pa bufs count reason where c: "request_decode request tool_names original_reason = Some (pa, bufs, count, reason)"
      by (cases r) auto
    with dec obtain p where p: "decodeRequest request = Some p" and pa: "pa = (if active p then 1 else 0)"
      and count: "unat count = length (toolNames p)" and bufs: "map c_string (take (unat count) bufs) = toolNames p"
      and reason: "c_string reason = stopReason p" by auto
    note ok = decode_request_Some [OF p]
    have n: "length (toolNames p) \<le> 16" "length (toolNames p) \<le> 32" "text_ok (stopReason p)"
      using ok(1) by (simp_all add: policy_ok_def)
    obtain m d f where ev: "evaluate p = (m, d, f)" by (cases "evaluate p") auto
    have f: "length f \<le> 31" using evaluate_eq(3) [OF n(2) ev] final_reason_ok [OF ok(1)] by (simp add: text_ok_def)
    note policy = adapter_policy [OF count n(1) bufs reason n(3) pa, unfolded ev]
    have "aimee_module_handler (InvStageID call) (Cancelled call fl now) request capacity tool_names original_reason =
        (if Cancelled call fl now then (C_CANCELLED, []) else (C_OK, response_bytes m d f))"
      unfolding aimee_module_handler_def c option.case prod.case Let_def [of "mask_for_count count"]
        Let_def [of "take 31 (c_string reason)"] policy
      using stage assms(4) f by (simp add: response_encode_bytes)
    then show ?thesis
      using assms(5) Handle_request_bytes [OF ok(1), of call fl now] stage ev ok(2) by (auto split: if_splits)
  qed
qed

theorem adapter_parity_witness:
  "\<exists>status body. aimee_module_handler 1 False (request_bytes sample_policy) 56 (replicate 16 (replicate 32 7)) (replicate 32 7) =
      (status, body) \<and> Handle sample_call (\<lambda>_. False) 10 (request_bytes sample_policy) = (body, c_status_of status)"
proof -
  obtain status body where run: "aimee_module_handler (InvStageID sample_call) (Cancelled sample_call (\<lambda>_. False) 10)
      (request_bytes sample_policy) 56 (replicate 16 (replicate 32 7)) (replicate 32 7) = (status, body)"
    by (metis surj_pair)
  from adapter_parity [OF _ _ _ _ run] run sample_call_runs show ?thesis by auto
qed

end
