(* ===== verification/Spec2Isabelle.thy ===== *)
theory Spec2Isabelle
  imports Prelude Interfaces Wire Module_Protocol Module_Stage Governance Ring Ring_Interleaving Region Client Client_Sound
    Module_Reply Module_Runtime Module_Requests Module_Jobs Module_Caller
    Module_Connect Module_Detail Governance_Wire_C Governance_Host Governance_Adapter
begin

text \<open>
  A verification development for the governance module of aimee: the supervised process that
  decides which tool calls of a model's response survive, the shared-memory event bus it is
  attached to, and the daemon's C code on the other side of its wire contract.

  \<^bold>\<open>The program.\<close> \<^verbatim>\<open>runtime/main.go\<close> starts a module process. It connects to the daemon's socket
  and attaches as a client of the bus (\<^verbatim>\<open>server-go/bus/client_connect.go\<close>, \<^verbatim>\<open>client.go\<close>): three
  descriptors arrive with the reply, a control region, an arena and a queue pair, which are
  mapped (\<^verbatim>\<open>region.go\<close>). Each direction is a ring of fixed-size slots in shared memory
  (\<^verbatim>\<open>ring.go\<close>) that carry frames (\<^verbatim>\<open>wire.go\<close>). A module message (\<^verbatim>\<open>module_protocol.go\<close>) travels
  in the payloads of one or more frames. The serving loop (\<^verbatim>\<open>module_runtime.go\<close>) puts a request
  together from its fragments, runs its handler in a goroutine, and fragments the result into
  replies; \<^verbatim>\<open>module_caller.go\<close> is the other end of such a call. The handler of this module is
  the policy stage of \<^verbatim>\<open>server-go/modules/governance/governance.go\<close>. In the daemon
  \<^verbatim>\<open>src/modules/governance/gw_stage_governance.c\<close> asks for the decision through a provider and
  applies it to the parsed response, with the codec of \<^verbatim>\<open>module_api.h\<close>;
  \<^verbatim>\<open>module_adapter.c\<close> is the former C implementation of the handler.

  \<^bold>\<open>The theories\<close>, each importing those it calls, with definitions under the names of the
  sources and in their order:
    \<^item> \<open>Prelude\<close>: machine types, Go slices, \<^verbatim>\<open>encoding/binary\<close>, the errors (\<open>err\<close>, \<open>errors_is\<close>), and
      \<open>outcome\<close> for steps that may end the process. \<open>Interfaces\<close>: the locales \<open>fixed_codec\<close> and
      \<open>bounded_fifo\<close>.
    \<^item> \<open>Wire\<close> (\<^verbatim>\<open>wire.go\<close>): \<open>Frame\<close>, \<open>Validate\<close>, \<open>Encode\<close>, \<open>Decode\<close>, \<open>CheckPlacement\<close>; validation against an
      abstract description of the wire, both round trips, placement without wrap-around.
    \<^item> \<open>Module_Protocol\<close> (\<^verbatim>\<open>module_protocol.go\<close>): \<open>ModuleMessage\<close> and its codec.
    \<^item> \<open>Module_Stage\<close>: what a handler sees, and the locale \<open>stage_handler\<close>, the contract of a handler.
    \<^item> \<open>Governance\<close> (\<^verbatim>\<open>governance.go\<close>): \<open>decodeRequest\<close>, \<open>evaluate\<close>, \<open>Handle\<close>; exactness of the decoder,
      correctness of the policy, the answer on every branch.
    \<^item> \<open>Ring\<close> (\<^verbatim>\<open>ring.go\<close>): \<open>AttachRing\<close> and the produce and consume operations on a region;
      \<open>Ring_Interleaving\<close>: both sides of a ring as a step relation on atomic steps.
    \<^item> \<open>Region\<close> (\<^verbatim>\<open>region.go\<close>): control region and queue pair, their separation.
    \<^item> \<open>Client\<close> (\<^verbatim>\<open>client.go\<close>): \<open>AttachAs\<close>, \<open>emit\<close> and its callers, \<open>Poll\<close>, \<open>Detach\<close>; \<open>Client_Sound\<close>: a client
      and its host as a step relation, that nothing reachable goes wrong but one Poll, and that
      every run is one of two first-in first-out queues.
    \<^item> \<open>Module_Reply\<close>, \<open>Module_Runtime\<close>, \<open>Module_Requests\<close>, \<open>Module_Jobs\<close>, \<open>Module_Detail\<close>
      (\<^verbatim>\<open>module_runtime.go\<close>): replying, the serving loop, what it makes of fragmented requests, its
      behaviour under every interleaving with handlers and host, and the log text of a failure.
    \<^item> \<open>Module_Caller\<close> (\<^verbatim>\<open>module_caller.go\<close>): \<open>Call\<close>, \<open>send\<close>, \<open>awaitReply\<close>.
    \<^item> \<open>Module_Connect\<close> (\<^verbatim>\<open>client_connect.go\<close>, \<^verbatim>\<open>main.go\<close>, and connecting in \<^verbatim>\<open>module_runtime.go\<close>).
    \<^item> \<open>Governance_Wire_C\<close> (\<^verbatim>\<open>module_api.h\<close>), \<open>Governance_Host\<close> (\<^verbatim>\<open>gw_stage_governance.c\<close>),
      \<open>Governance_Adapter\<close> (\<^verbatim>\<open>module_adapter.c\<close>): the C side and its agreement with the Go side.
    \<^item> This theory: a call end to end, over any two buses.

  \<^bold>\<open>State.\<close> A mapped region is its bytes; a view is the geometry checked at attach time with the
  offset of its part, and every operation reads and writes the bytes. A client holds its
  mappings as options: \<open>None\<close> is nil or unmapped, and touching it is \<open>Crash\<close>, as is a slice out of
  range. Integers keep their width. Go maps are association lists, a cancel flag is an address
  in a store that loop and handlers share, and an error is the left side of a sum or an option.
  C buffers are their bytes, C strings the bytes before the terminator, null is \<open>None\<close>.

  \<^bold>\<open>Interfaces.\<close> \<open>fixed_codec\<close> (decoding inverts encoding, and accepts nothing else) is interpreted
  for frames, module messages, policy requests and policy responses; \<open>bounded_fifo\<close> (what a queue
  promises) for the ring, which is how emit and Poll use it; \<open>stage_handler\<close> for \<open>Handle\<close>;
  \<open>reply_bus\<close> (operations of a bus return and keep its invariant) for the client, under the replies;
  \<open>timed_bus\<close> (a bus on which waiting uses up time or traffic) for the client that nothing more is
  sent to, under the waiting call.

  \<^bold>\<open>Loops and bounds.\<close> Loops over data are structural or have a measure. The loops that wait for
  the outside world (\<open>reply_retry\<close>, \<open>reply_chunks\<close>, \<open>send_chunks\<close>, \<open>awaitReply\<close>, \<open>connect_loop\<close>) are partial
  functions into option, and not returning is \<open>None\<close>; no fuel is used. That they return is proved
  from an assumption on the waiting alone: it makes progress, by a measure on the world (room
  in the ring, the end of the context, the deadline). The serving loop is a step relation: one
  pass, one handler finishing, or a move of the host. At most sixteen assemblies and jobs are
  open, which is the capacity of the result channel, so no handler blocks.

  \<^bold>\<open>Parameters.\<close> Code that is not in the repository is an argument: the socket and mapping calls
  (\<open>kernel\<close>, \<open>os\<close>), the clocks, contexts and timers (\<open>module_env\<close>, \<open>caller_env\<close>), the host of the bus (what it
  writes into shared memory is arbitrary or, where a theorem says so, a well-formed slot), and
  in C the provider, the stage registry, the value of the environment variable, and whether an
  invocation is cancelled. Attach does not compare the geometry of the rings with the negotiated
  one, nor the rings with each other; theorems on a fresh client name this promise of the host.

  \<^bold>\<open>Not modelled.\<close> Log output and messages on standard error, the text of errors, the intervals
  of timers, and finalisation of Go memory. A payload handed out by Poll is its content at that
  time (the slice aliases the slot until the next Poll). The arena is mapped but read by no code
  here. The atomics of Go are sequentially consistent, which is what interleaving models; C code
  is single threaded. Tests, build files, manifests and documentation hold no program logic.
\<close>

section \<open>A call, end to end\<close>

text \<open>How the host hands a sent fragment to the serving side: as a request event, unchanged.\<close>

definition request_event_of :: "fragment + u32 \<times> u64 \<Rightarrow> Event \<Rightarrow> bool" where
  "request_event_of s e \<longleftrightarrow> (case s of Inl fr \<Rightarrow> fragment_event fr e | Inr _ \<Rightarrow> False) \<and>
     HdrFlags (EventFrame e) AND FCancel = 0 \<and> HdrFlags (EventFrame e) AND FRequest \<noteq> 0"

lemma sent_fragments:
  "list_all2 request_event_of (map Inl (fragments kind correlation (invoke_message stageID traceID deadlineNS) cs)) es \<Longrightarrow>
   request_fragments kind correlation (invoke_message stageID traceID deadlineNS 0) cs es"
proof (induction cs arbitrary: es)
  case (Cons c cs)
  then show ?case
    by (cases es)
      (auto simp: request_event_of_def fragment_event_def request_fragment_def invoke_message_def)
qed auto

lemma send_reaches_handler:
  assumes "send (logged_caller bus) kind stageID traceID correlation deadlineNS request (v, []) =
      Some (Ret (None, (v', log)))"
    and "length request \<le> unat ModuleMessageMaxBody" and "stageID \<noteq> 0" and "stage_of stages kind = stageID"
    and "list_all2 request_event_of log es"
    and "\<not> DeadlineExpired (invoke_message stageID traceID deadlineNS 0) now" and "handler \<noteq> None"
    and "correlation \<notin> fst ` set (rt_jobs st)" and "correlation \<notin> fst ` set (rt_assemblies st)"
    and "length (rt_assemblies st) < moduleMaxInFlight" and "length (rt_jobs st) < moduleMaxInFlight"
  shows "handle_events mbus env handler stages now es st w = Some (Ret (None, with_work correlation
    (new_work kind correlation stageID (invoke_message stageID traceID deadlineNS 0) (rt_next st)) request st, w))"
proof -
  let ?m = "invoke_message stageID traceID deadlineNS" and ?b = "cb_moduleInlineBudget bus v"
  have budget: "\<not> ?b \<le> 40"
    using assms(1) by (auto simp: send_def logged_caller_def Let_def split: if_splits)
  then have cap: "0 < unat ?b - 40" by (simp add: word_le_nat_alt)
  have b: "cb_moduleInlineBudget (logged_caller bus) (v, []) = ?b" by (simp add: logged_caller_def)
  have run: "send_chunks (logged_caller bus) (unat ?b - 40) kind correlation ?m request (replicate (unat ?b) 0) 0 (v, []) =
      Some (Ret (None, (v', log)))"
    using assms(1) budget by (simp add: send_def b Let_def)
  have "log = map Inl (fragments kind correlation ?m (chunks (unat ?b - 40) request))"
    using send_chunks_logged [OF cap assms(3,2) _ _ run] cap by (simp add: Let_def)
  then have frs: "request_fragments kind correlation (?m 0) (chunks (unat ?b - 40) request) es"
    using assms(5) sent_fragments by simp
  have m: "invoke_header (?m 0) (stage_of stages kind)"
    using assms(3,4) by (simp add: invoke_header_def invoke_message_def)
  have "handle_events mbus env handler stages now es st w = Some (Ret (None, with_work correlation
      (new_work kind correlation (stage_of stages kind) (?m 0) (rt_next st))
      ([] @ concat (chunks (unat ?b - 40) request)) st, w))"
    by (rule fragments_step [OF m assms(8,9,6,7,11) frs]) (use assms in simp_all)
  then show ?thesis by (simp add: assms(4))
qed

text \<open>The events of one fragment for the samples.\<close>

definition sample_sent :: "u32 \<Rightarrow> u64 \<Rightarrow> bytes \<Rightarrow> Event" where
  "sample_sent kind correlation payload =
    \<lparr>EventFrame = sample_frame\<lparr>HdrFlags := FRequest OR FInline, CorrelationID := correlation, EventKind := kind\<rparr>,
     Payload = payload\<rparr>"

lemma sample_sent: "request_event_of (Inl (kind, correlation, payload, False)) (sample_sent kind correlation payload)"
  by (simp add: request_event_of_def fragment_event_def sample_sent_def)

text \<open>A serving side's bus for the samples, which accepts every reply.\<close>

definition accepting_bus :: "unit module_bus" where
  "accepting_bus = \<lparr>bus_Poll = (\<lambda>w. Ret (Inr None, w)), bus_ReplyFragment = (\<lambda>_ _ _ _ w. Ret (None, w)),
     bus_Heartbeat = (\<lambda>_ w. Ret w), bus_EpochChanged = (\<lambda>_. Ret False), bus_moduleInlineBudget = (\<lambda>_. 4096)\<rparr>"

lemma accepted_reply:
  assumes "length body \<le> 4056" and "stageID \<noteq> 0" and "check_result body status = (body, status)"
  shows "replyModuleResult (logged_bus accepting_bus) (logged_env idle_env) kind correlation stageID traceID status body
    ((), []) = Some (Ret (None, ((), [(kind, correlation,
      message_bytes (reply_message stageID traceID status (length body)) @ body, False)])))"
proof -
  let ?p = "message_bytes (reply_message stageID traceID status (length body)) @ body"
  have "valid_message (reply_message stageID traceID status (length body))"
    using assms check_result_valid [OF assms(3)]
    by (simp add: reply_message_valid word_le_nat_alt unat_of_nat)
  then have payload: "reply_payload (reply_message stageID traceID status (length body)) (sub body 0 (length body)) = Inr ?p"
    by (simp add: reply_payload_eq sub_def)
  have "reply_retry (logged_bus accepting_bus) (logged_env idle_env) kind correlation ?p False ((), []) =
      Some (Ret (None, ((), [(kind, correlation, ?p, False)])))"
    by (subst reply_retry.simps) (simp add: logged_bus_def accepting_bus_def)
  then have "reply_chunks (logged_bus accepting_bus) (logged_env idle_env) 4056 kind correlation stageID traceID status
      body 0 ((), []) = Some (Ret (None, ((), [(kind, correlation, ?p, False)])))"
    using payload assms(1)
    by (subst reply_chunks_step [where part = "length body" and more_frags = False and payload = ?p]) simp_all
  then show ?thesis
    by (simp add: replyModuleResult_def assms(3) Let_def) (simp add: logged_bus_def accepting_bus_def)
qed

text \<open>
  C34. The whole path of a decision: a caller sends the encoding of a well-formed policy request,
  its fragments reach the serving loop, which starts the stage's handler on it; the handler
  runs without being cancelled or overtaken by the deadline, its result is replied, and the
  fragments of the reply reach the waiting caller among any other traffic. Then the caller gets
  a response that keeps exactly the calls that are not denied, counts the denied ones and
  carries the final stop reason. Neither side's fragment size, nor what their buses do, matters.
\<close>

theorem governance_call:
  assumes "policy_ok p"
    and "send (logged_caller bus) 8961 StageEvaluate traceID correlation deadlineNS (request_bytes p) (v, []) =
      Some (Ret (None, (v', log)))"
    and "list_all2 request_event_of log es"
    and "m = invoke_message StageEvaluate traceID deadlineNS 0"
    and "work = new_work 8961 correlation StageEvaluate m (rt_next st)" and "\<not> DeadlineExpired m now"
    and "correlation \<notin> fst ` set (rt_jobs st)" and "correlation \<notin> fst ` set (rt_assemblies st)"
    and "length (rt_assemblies st) < moduleMaxInFlight" and "length (rt_jobs st) < moduleMaxInFlight"
    and "result = runHandler work Handle (request_bytes p) flags t flags' t'"
    and "\<not> Cancelled (work_invocation work) flags t" and "\<not> Cancelled (work_invocation work) flags' t'"
    and "replyModuleResult (logged_bus rbus) (logged_env renv) 8961 correlation StageEvaluate traceID
      (result_status result) (result_body result) (u, []) = Some (Ret (None, (u', log')))"
    and "delivered correlation log' es'" and "await_run cbus cenv expiry x es' x'"
  shows "(\<exists>st'. handle_events mbus env (Some Handle) [(8961, StageEvaluate)] now es st w = Some (Ret (None, st', w)) \<and>
      rt_running st' = rt_running st @ [(work, request_bytes p)]) \<and>
    (\<exists>resp x''. awaitReply cbus cenv 8961 correlation expiry ModuleMessageMaxBody [] x = Some (Ret (Inr resp, x'')) \<and>
      nths (toolNames p) {j. bit (get_u32 resp 8) j} = surviving_calls p \<and>
      unat (get_u32 resp 12) = length (denied_calls p) \<and>
      drop responseStopReasonOff resp = final_reason p @ replicate (32 - length (final_reason p)) 0)"
proof
  have "stage_of [(8961, StageEvaluate)] 8961 = StageEvaluate" by (simp add: stage_of_def)
  moreover have "length (request_bytes p) \<le> unat ModuleMessageMaxBody" using assms(1) by simp
  ultimately have "handle_events mbus env (Some Handle) [(8961, StageEvaluate)] now es st w =
      Some (Ret (None, with_work correlation work (request_bytes p) st, w))"
    unfolding assms(4,5)
    by (intro send_reaches_handler [OF assms(2) _ _ _ assms(3)]) (use assms in simp_all)
  then show "\<exists>st'. handle_events mbus env (Some Handle) [(8961, StageEvaluate)] now es st w = Some (Ret (None, st', w)) \<and>
      rt_running st' = rt_running st @ [(work, request_bytes p)]"
    by (simp add: with_work_def)
next
  have "InvStageID (work_invocation work) = StageEvaluate" by (simp add: assms(5) new_work_def)
  from Handle_policy_response [OF assms(1) this assms(12)]
  obtain resp where h: "Handle (work_invocation work) flags t (request_bytes p) = (resp, ModuleStatusOK)"
    and len: "length resp = responseLen"
    and resp: "nths (toolNames p) {j. bit (get_u32 resp 8) j} = surviving_calls p \<and>
      unat (get_u32 resp 12) = length (denied_calls p) \<and>
      drop responseStopReasonOff resp = final_reason p @ replicate (32 - length (final_reason p)) 0" by blast
  have ok: "check_result resp ModuleStatusOK = (resp, ModuleStatusOK)"
    using len by (simp add: check_result_def validModuleStatus_def)
  then have "result = \<lparr>result_work = work, result_body = resp, result_status = ModuleStatusOK\<rparr>"
    using assms(11,13) h
    by (auto simp: runHandler_def Let_def Cancelled_def assms(5) new_work_def)
  then have res: "result_body result = resp" "result_status result = ModuleStatusOK" by simp_all
  have "\<exists>x''. awaitReply cbus cenv 8961 correlation expiry ModuleMessageMaxBody [] x =
      Some (Ret (case check_result (result_body result) (result_status result) of (body, status) \<Rightarrow>
        if status = ModuleStatusOK then Inr body else Inl (ModuleCallStatusError status), x''))"
    by (rule awaitReply_delivered [OF assms(14) _ _ _ assms(15,16)])
      (simp_all add: KindCapabilityAbsent_def KindError_def)
  with resp ok show "\<exists>resp x''. awaitReply cbus cenv 8961 correlation expiry ModuleMessageMaxBody [] x =
      Some (Ret (Inr resp, x'')) \<and>
      nths (toolNames p) {j. bit (get_u32 resp 8) j} = surviving_calls p \<and>
      unat (get_u32 resp 12) = length (denied_calls p) \<and>
      drop responseStopReasonOff resp = final_reason p @ replicate (32 - length (final_reason p)) 0"
    by (auto simp: res)
qed

theorem governance_call_witness:
  "\<exists>log es work log' es' resp x. send (logged_caller script_bus) 8961 StageEvaluate 9 7 0 (request_bytes sample_policy)
      (([], 0), []) = Some (Ret (None, (([], 0), log))) \<and> list_all2 request_event_of log es \<and>
    delivered 7 log' es' \<and>
    awaitReply script_bus script_env 8961 7 None ModuleMessageMaxBody [] (es', 0) = Some (Ret (Inr resp, x)) \<and>
    nths (toolNames sample_policy) {j. bit (get_u32 resp 8) j} = [ascii ''bash''] \<and>
    (\<exists>st'. handle_events accepting_bus idle_env (Some Handle) [(8961, StageEvaluate)] 0 es rt_start () =
      Some (Ret (None, st', ())) \<and> rt_running st' = [(work, request_bytes sample_policy)])"
proof -
  let ?req = "request_bytes sample_policy" and ?m = "invoke_message StageEvaluate 9 0 0"
  let ?work = "new_work 8961 7 StageEvaluate ?m (rt_next rt_start)"
  let ?res = "runHandler ?work Handle ?req (\<lambda>_. False) 10 (\<lambda>_. False) 10"
  let ?p = "message_bytes (invoke_message StageEvaluate 9 0 (length ?req)) @ ?req"
  have len: "length ?req = 632" using sample_policy_ok by simp
  have run: "send (logged_caller script_bus) 8961 StageEvaluate 9 7 0 ?req (([], 0), []) =
      Some (Ret (None, (([], 0), [Inl (8961, 7, ?p, False)])))"
    by (rule script_send) (simp_all add: len)
  have ev: "list_all2 request_event_of [Inl (8961, 7, ?p, False)] [sample_sent 8961 7 ?p]"
    by (simp add: sample_sent)
  have calm: "\<not> Cancelled (work_invocation ?work) (\<lambda>_. False) 10" "InvStageID (work_invocation ?work) = StageEvaluate"
    by (simp_all add: Cancelled_def new_work_def invoke_message_def)
  from Handle_policy_response [OF sample_policy_ok calm(2,1)]
  obtain resp where h: "Handle (work_invocation ?work) (\<lambda>_. False) 10 ?req = (resp, ModuleStatusOK)" "length resp = 56"
    by auto
  then have c: "check_result resp ModuleStatusOK = (resp, ModuleStatusOK)"
    by (simp add: check_result_def validModuleStatus_def)
  have res: "result_body ?res = resp" "result_status ?res = ModuleStatusOK"
    using h(1) c by (simp_all add: runHandler_def Let_def new_work_def invoke_message_def)
  let ?log = "[(8961, 7, message_bytes (reply_message StageEvaluate 9 ModuleStatusOK (length resp)) @ resp, False)]"
  let ?es = "[sample_event 8961 7 (message_bytes (reply_message StageEvaluate 9 ModuleStatusOK (length resp)) @ resp) False]"
  have reply: "replyModuleResult (logged_bus accepting_bus) (logged_env idle_env) 8961 7 StageEvaluate 9
      (result_status ?res) (result_body ?res) ((), []) = Some (Ret (None, ((), ?log)))"
    unfolding res by (rule accepted_reply) (use h(2) c in simp_all)
  have del: "delivered 7 ?log ?es" by (simp add: delivered_def fragment_event_def sample_event_def)
  note call = governance_call [OF sample_policy_ok run ev refl refl _ _ _ _ _ refl calm(1) calm(1) reply del script_run,
      of 0 accepting_bus idle_env "()" None 0]
  have "(\<exists>st'. handle_events accepting_bus idle_env (Some Handle) [(8961, StageEvaluate)] 0 [sample_sent 8961 7 ?p]
      rt_start () = Some (Ret (None, st', ())) \<and> rt_running st' = rt_running rt_start @ [(?work, ?req)]) \<and>
    (\<exists>resp x. awaitReply script_bus script_env 8961 7 None ModuleMessageMaxBody [] (?es, 0) = Some (Ret (Inr resp, x)) \<and>
      nths (toolNames sample_policy) {j. bit (get_u32 resp 8) j} = surviving_calls sample_policy \<and>
      unat (get_u32 resp 12) = length (denied_calls sample_policy) \<and>
      drop responseStopReasonOff resp = final_reason sample_policy @
        replicate (32 - length (final_reason sample_policy)) 0)"
    by (rule call) (simp_all add: DeadlineExpired_def invoke_message_def rt_start_def)
  then obtain st' resp' x where
    "handle_events accepting_bus idle_env (Some Handle) [(8961, StageEvaluate)] 0 [sample_sent 8961 7 ?p]
      rt_start () = Some (Ret (None, st', ()))" "rt_running st' = [(?work, ?req)]"
    "awaitReply script_bus script_env 8961 7 None ModuleMessageMaxBody [] (?es, 0) = Some (Ret (Inr resp', x))"
    "nths (toolNames sample_policy) {j. bit (get_u32 resp' 8) j} = [ascii ''bash'']"
    by (auto simp: rt_start_def sample_policy_facts(1))
  with run ev del show ?thesis by blast
qed

end
